theory Spec2Isabelle
  imports Main "HOL-Library.Word" "HOL-Library.Monad_Syntax"
begin

section \<open>The host's event packets\<close>

type_synonym uint8_t = "8 word"
type_synonym uint16_t = "16 word"

text \<open>\<^verbatim>\<open>unsigned long\<close> on the 32-bit Arduino targets of the sketch: sums wrap modulo \<open>2^32\<close>.\<close>
type_synonym unsigned_long = "32 word"

text \<open>\<^verbatim>\<open>typedef void * arg_t\<close>: an opaque pointer-sized value, \<open>0\<close> being \<^verbatim>\<open>NO_ARGS\<close>.\<close>
type_synonym arg_t = nat

text \<open>
  Modelled from the spec: the constants and packed structures of the STBLE library
  (\<^verbatim>\<open>HCI_EVENT_PKT\<close>, \<^verbatim>\<open>EVT_VENDOR\<close>, \<^verbatim>\<open>EVT_LE_META_EVENT\<close>, \<^verbatim>\<open>hci_uart_pckt\<close>,
  \<^verbatim>\<open>hci_event_pckt\<close>, \<^verbatim>\<open>evt_blue_aci\<close>, ...) are declared in the host library, not in this
  repository. Section 6 of the specification fixes what the matcher reads: a transport
  packet type byte, a one-byte top-level event code, a one-byte subevent code at offset 0
  of a meta event's payload, a 16-bit vendor code at offset 0 of a vendor event's payload.
  The values below are those of the BlueNRG headers; no theorem except the concrete
  evaluations depends on them.
\<close>

definition HCI_EVENT_PKT :: uint8_t where "HCI_EVENT_PKT = 0x04"
definition EVT_LE_META_EVENT :: uint8_t where "EVT_LE_META_EVENT = 0x3E"
definition EVT_VENDOR :: uint8_t where "EVT_VENDOR = 0xFF"
definition EVT_BLUE_HAL_INITIALIZED :: uint16_t where "EVT_BLUE_HAL_INITIALIZED = 0x0001"
definition EVT_BLUE_GAP_PROCEDURE_COMPLETE :: uint16_t where
  "EVT_BLUE_GAP_PROCEDURE_COMPLETE = 0x0407"

text \<open>
  A flexible array member \<^verbatim>\<open>uint8_t data[]\<close> is the memory behind the header: a total
  function from offsets to bytes. \<open>bytes xs\<close> is the memory holding \<open>xs\<close> followed by zeros.
\<close>

record hci_uart_pckt =
  pckt_type :: uint8_t
  pckt_data :: "nat \<Rightarrow> uint8_t"

record hci_event_pckt =
  evt :: uint8_t
  plen :: uint8_t
  data :: "nat \<Rightarrow> uint8_t"

definition bytes :: "uint8_t list \<Rightarrow> nat \<Rightarrow> uint8_t" where
  "bytes xs i = (if i < length xs then xs ! i else 0)"

text \<open>The cast \<^verbatim>\<open>(hci_event_pckt*) (void*) hci_pckt->data\<close> of \<^verbatim>\<open>run_production\<close>.\<close>

definition as_hci_event_pckt :: "hci_uart_pckt \<Rightarrow> hci_event_pckt" where
  "as_hci_event_pckt hci_pckt =
     \<lparr>evt = pckt_data hci_pckt 0, plen = pckt_data hci_pckt 1,
      data = (\<lambda>i. pckt_data hci_pckt (i + 2))\<rparr>"

text \<open>Modelled from the spec: the subevent code at offset 0 of the payload,
  \<^verbatim>\<open>((evt_le_meta_event *) event_pckt->data)->subevent\<close>.\<close>
definition subevent :: "hci_event_pckt \<Rightarrow> uint8_t" where
  "subevent event_pckt = data event_pckt 0"

text \<open>Modelled from the spec: the 16-bit vendor code at offset 0 of the payload,
  \<^verbatim>\<open>((evt_blue_aci *) event_pckt->data)->ecode\<close>, a little-endian \<^verbatim>\<open>uint16_t\<close>.\<close>
definition blue_ecode :: "hci_event_pckt \<Rightarrow> uint16_t" where
  "blue_ecode event_pckt = ucast (data event_pckt 0) + 256 * ucast (data event_pckt 1)"

text \<open>Modelled from the spec: the reason byte, the first member of \<^verbatim>\<open>evt_hal_initialized\<close>.
  In \<^verbatim>\<open>((evt_hal_initialized *) event_pckt->data)->reason_code\<close> the cast is applied to the
  event payload itself, as the source writes it.\<close>
definition reason_code :: "hci_event_pckt \<Rightarrow> uint8_t" where
  "reason_code event_pckt = data event_pckt 0"

text \<open>Modelled from the spec: the procedure byte, the first member of
  \<^verbatim>\<open>evt_gap_procedure_complete\<close>. In
  \<^verbatim>\<open>((evt_gap_procedure_complete *) evt_blue->data)->procedure_code\<close> it lies behind the
  two bytes of the vendor code.\<close>
definition procedure_code :: "hci_event_pckt \<Rightarrow> uint8_t" where
  "procedure_code event_pckt = data event_pckt 2"


section \<open>production.h: rules and the statics of production.cpp\<close>

definition MAX_RULES :: nat where "MAX_RULES = 20"

datatype check_t =
  no_check | event_check | le_meta_event_check | ecode | reset_reason
  | procedure_complete | condition_check

text \<open>
  Callbacks. An event condition and a user's until function see the event only
  (\<^verbatim>\<open>bool f(hci_event_pckt *)\<close>); an event action and the action to perform act on the
  user's own state \<open>'u\<close> (the BLE stack, the address list, the device database) and
  return a \<^verbatim>\<open>bool\<close>. \<^verbatim>\<open>NULL\<close> is \<open>None\<close>. A callback does not call back into the
  framework: the rules, the until configuration and the timeout are written by the code of
  a protocol step only, as in the sketch of the repository.
\<close>

type_synonym event_condition_ptr_t = "(hci_event_pckt \<Rightarrow> bool) option"
type_synonym 'u event_action_ptr_t = "(hci_event_pckt \<Rightarrow> arg_t \<Rightarrow> 'u \<Rightarrow> bool \<times> 'u) option"
type_synonym 'u action_ptr_t = "(arg_t \<Rightarrow> 'u \<Rightarrow> bool \<times> 'u) option"

text \<open>An until function is either the repository's own \<^verbatim>\<open>timeout\<close>, which reads the clock
  and the two timeout statics, or a function of the user.\<close>

datatype until_t = timeout_fn | user_until "hci_event_pckt \<Rightarrow> bool"

type_synonym until_ptr_t = "until_t option"

record 'u rule_t =
  check_type :: check_t
  event_code :: uint16_t
  event_condition :: event_condition_ptr_t
  event_action :: "'u event_action_ptr_t"
  action_args :: arg_t

text \<open>\<^verbatim>\<open>typedef bool (*protocol_ptr_t)()\<close>: the address of a protocol function.\<close>
type_synonym protocol_ptr_t = "nat option"

text \<open>
  The file-scope variables of production.cpp and protocol.cpp, the clock \<^verbatim>\<open>millis()\<close> of
  the host and the state \<open>user\<close> that the callbacks act on. The names of the action and
  of the protocol, kept for the debug output, are left out. An array is the memory at its
  indices; an access at an index from \<open>MAX_RULES\<close> on is outside the array and has no
  defined result (\<open>None\<close> below).
\<close>

record 'u engine =
  action :: "'u action_ptr_t"
  action_args_static :: arg_t
  until_condition :: until_ptr_t
  until_check :: check_t
  until_check_event :: uint16_t
  production_start :: unsigned_long
  timeout_milliseconds :: unsigned_long
  rule_matched :: bool
  rules :: "nat \<Rightarrow> 'u rule_t"
  exclusive_rules :: "nat \<Rightarrow> 'u rule_t"
  global_rules :: "nat \<Rightarrow> 'u rule_t"
  num_rules :: nat
  num_exclusive_rules :: nat
  num_global_rules :: nat
  current_rule :: nat
  current_global_rule :: nat
  current_exclusive_rule :: nat
  current_protocol :: protocol_ptr_t
  millis :: unsigned_long
  user :: 'u

definition perform :: "'u action_ptr_t \<Rightarrow> arg_t \<Rightarrow> 'u engine \<Rightarrow> 'u engine" where
  "perform act args s = s\<lparr>action := act, action_args_static := args\<rparr>"

definition run_action_only_once :: "'u engine \<Rightarrow> bool \<times> 'u engine" where
  "run_action_only_once s =
     (case action s of
        Some act \<Rightarrow>
          (case act (action_args_static s) (user s) of
             (ret, u) \<Rightarrow> (ret, s\<lparr>user := u, action := None, action_args_static := 0\<rparr>))
      | None \<Rightarrow> (True, s))"


definition until_clear :: "'u engine \<Rightarrow> 'u engine" where
  "until_clear s = s\<lparr>until_condition := None\<rparr>"

definition until_event :: "check_t \<Rightarrow> uint16_t \<Rightarrow> 'u engine \<Rightarrow> 'u engine" where
  "until_event chk code s = s\<lparr>until_check := chk, until_check_event := code\<rparr>"

definition until_event_clear :: "'u engine \<Rightarrow> 'u engine" where
  "until_event_clear s = s\<lparr>until_check := no_check, until_check_event := 0\<rparr>"

definition start_timeout :: "'u engine \<Rightarrow> 'u engine" where
  "start_timeout s = s\<lparr>production_start := millis s\<rparr>"

definition set_timeout :: "unsigned_long \<Rightarrow> 'u engine \<Rightarrow> 'u engine" where
  "set_timeout milliseconds s = start_timeout (s\<lparr>timeout_milliseconds := milliseconds\<rparr>)"

definition timeout :: "'u engine \<Rightarrow> bool" where
  "timeout s \<longleftrightarrow> production_start s + timeout_milliseconds s < millis s"

definition met_expectations :: "'u engine \<Rightarrow> bool" where
  "met_expectations s = rule_matched s"

subsection \<open>The rule arrays\<close>

definition rules_clear :: "'u engine \<Rightarrow> 'u engine" where
  "rules_clear s = s\<lparr>num_rules := 0\<rparr>"

definition exclusive_rules_clear :: "'u engine \<Rightarrow> 'u engine" where
  "exclusive_rules_clear s = s\<lparr>num_exclusive_rules := 0\<rparr>"

definition global_rules_clear :: "'u engine \<Rightarrow> 'u engine" where
  "global_rules_clear s = s\<lparr>num_global_rules := 0\<rparr>"

definition rules_start :: "'u engine \<Rightarrow> 'u engine" where
  "rules_start s = s\<lparr>current_rule := 0\<rparr>"

definition exclusive_rules_start :: "'u engine \<Rightarrow> 'u engine" where
  "exclusive_rules_start s = s\<lparr>current_exclusive_rule := 0\<rparr>"

definition global_rules_start :: "'u engine \<Rightarrow> 'u engine" where
  "global_rules_start s = s\<lparr>current_global_rule := 0\<rparr>"

definition rules_done :: "'u engine \<Rightarrow> bool" where
  "rules_done s \<longleftrightarrow> current_rule s = num_rules s"

definition exclusive_rules_done :: "'u engine \<Rightarrow> bool" where
  "exclusive_rules_done s \<longleftrightarrow> current_exclusive_rule s = num_exclusive_rules s"

definition global_rules_done :: "'u engine \<Rightarrow> bool" where
  "global_rules_done s \<longleftrightarrow> current_global_rule s = num_global_rules s"

text \<open>A \<^verbatim>\<open>rule_t *\<close> is \<open>None\<close> for \<^verbatim>\<open>NULL\<close> or the index of the slot in the array it points
  into. The capacity test of the three \<^verbatim>\<open>new_\<close> functions reads the iteration cursor.\<close>

definition new_rule :: "'u engine \<Rightarrow> nat option \<times> 'u engine" where
  "new_rule s =
     (if current_rule s = MAX_RULES then (None, s)
      else (Some (num_rules s), s\<lparr>num_rules := num_rules s + 1\<rparr>))"

definition new_exclusive_rule :: "'u engine \<Rightarrow> nat option \<times> 'u engine" where
  "new_exclusive_rule s =
     (if current_exclusive_rule s = MAX_RULES then (None, s)
      else (Some (num_exclusive_rules s), s\<lparr>num_exclusive_rules := num_exclusive_rules s + 1\<rparr>))"

definition new_global_rule :: "'u engine \<Rightarrow> nat option \<times> 'u engine" where
  "new_global_rule s =
     (if current_global_rule s = MAX_RULES then (None, s)
      else (Some (num_global_rules s), s\<lparr>num_global_rules := num_global_rules s + 1\<rparr>))"

definition next_rule :: "'u engine \<Rightarrow> nat option \<times> 'u engine" where
  "next_rule s =
     (if rules_done s then (None, s)
      else (Some (current_rule s), s\<lparr>current_rule := current_rule s + 1\<rparr>))"

definition next_exclusive_rule :: "'u engine \<Rightarrow> nat option \<times> 'u engine" where
  "next_exclusive_rule s =
     (if exclusive_rules_done s then (None, s)
      else (Some (current_exclusive_rule s),
            s\<lparr>current_exclusive_rule := current_exclusive_rule s + 1\<rparr>))"

definition next_global_rule :: "'u engine \<Rightarrow> nat option \<times> 'u engine" where
  "next_global_rule s =
     (if global_rules_done s then (None, s)
      else (Some (current_global_rule s), s\<lparr>current_global_rule := current_global_rule s + 1\<rparr>))"

text \<open>Reading through a \<^verbatim>\<open>rule_t *\<close>: undefined for \<^verbatim>\<open>NULL\<close> and outside the array.\<close>

definition deref :: "(nat \<Rightarrow> 'u rule_t) \<Rightarrow> nat option \<Rightarrow> 'u rule_t option" where
  "deref arr r = (case r of None \<Rightarrow> None | Some i \<Rightarrow> if i < MAX_RULES then Some (arr i) else None)"

definition clear_all_expectations :: "'u engine \<Rightarrow> 'u engine" where
  "clear_all_expectations s = global_rules_clear (exclusive_rules_clear (rules_clear s))"

definition clear_expectations :: "'u engine \<Rightarrow> 'u engine" where
  "clear_expectations s = (rules_clear s)\<lparr>rule_matched := False\<rparr>"

definition clear_global_expectations :: "'u engine \<Rightarrow> 'u engine" where
  "clear_global_expectations s = global_rules_clear s"

definition clear_exclusive_expectations :: "'u engine \<Rightarrow> 'u engine" where
  "clear_exclusive_expectations s = exclusive_rules_clear s"

text \<open>\<^verbatim>\<open>set_expect\<close> and \<^verbatim>\<open>set_expect_condition\<close> write through the pointer into the array
  it belongs to: nothing for \<^verbatim>\<open>NULL\<close>, undefined outside the array.\<close>

definition set_expect ::
  "nat option \<Rightarrow> check_t \<Rightarrow> uint16_t \<Rightarrow> 'u event_action_ptr_t \<Rightarrow> arg_t \<Rightarrow>
   (nat \<Rightarrow> 'u rule_t) \<Rightarrow> (nat \<Rightarrow> 'u rule_t) option" where
  "set_expect r chk code act args arr =
     (case r of
        None \<Rightarrow> Some arr
      | Some i \<Rightarrow>
          if i < MAX_RULES then
            Some (arr(i := \<lparr>check_type = chk, event_code = code, event_condition = None,
                            event_action = act, action_args = args\<rparr>))
          else None)"

definition set_expect_condition ::
  "nat option \<Rightarrow> (hci_event_pckt \<Rightarrow> bool) \<Rightarrow> 'u event_action_ptr_t \<Rightarrow> arg_t \<Rightarrow>
   (nat \<Rightarrow> 'u rule_t) \<Rightarrow> (nat \<Rightarrow> 'u rule_t) option" where
  "set_expect_condition r cond act args arr =
     (case r of
        None \<Rightarrow> Some arr
      | Some i \<Rightarrow>
          if i < MAX_RULES then
            Some (arr(i := \<lparr>check_type = condition_check, event_code = 0,
                            event_condition = Some cond,
                            event_action = act, action_args = args\<rparr>))
          else None)"

definition expect ::
  "check_t \<Rightarrow> uint16_t \<Rightarrow> 'u event_action_ptr_t \<Rightarrow> arg_t \<Rightarrow> 'u engine \<Rightarrow> 'u engine option" where
  "expect chk code act args s =
     (case new_rule s of (r, s1) \<Rightarrow>
        map_option (\<lambda>arr. s1\<lparr>rules := arr\<rparr>) (set_expect r chk code act args (rules s1)))"

definition expect_condition ::
  "(hci_event_pckt \<Rightarrow> bool) \<Rightarrow> 'u event_action_ptr_t \<Rightarrow> arg_t \<Rightarrow> 'u engine \<Rightarrow> 'u engine option" where
  "expect_condition cond act args s =
     (case new_rule s of (r, s1) \<Rightarrow>
        map_option (\<lambda>arr. s1\<lparr>rules := arr\<rparr>) (set_expect_condition r cond act args (rules s1)))"

definition expect_ex ::
  "check_t \<Rightarrow> uint16_t \<Rightarrow> 'u event_action_ptr_t \<Rightarrow> arg_t \<Rightarrow> 'u engine \<Rightarrow> 'u engine option" where
  "expect_ex chk code act args s =
     (case new_exclusive_rule s of (r, s1) \<Rightarrow>
        map_option (\<lambda>arr. s1\<lparr>exclusive_rules := arr\<rparr>)
          (set_expect r chk code act args (exclusive_rules s1)))"

definition expect_ex_condition ::
  "(hci_event_pckt \<Rightarrow> bool) \<Rightarrow> 'u event_action_ptr_t \<Rightarrow> arg_t \<Rightarrow> 'u engine \<Rightarrow> 'u engine option" where
  "expect_ex_condition cond act args s =
     (case new_exclusive_rule s of (r, s1) \<Rightarrow>
        map_option (\<lambda>arr. s1\<lparr>exclusive_rules := arr\<rparr>)
          (set_expect_condition r cond act args (exclusive_rules s1)))"

definition expect_globally ::
  "check_t \<Rightarrow> uint16_t \<Rightarrow> 'u event_action_ptr_t \<Rightarrow> arg_t \<Rightarrow> 'u engine \<Rightarrow> 'u engine option" where
  "expect_globally chk code act args s =
     (case new_global_rule s of (r, s1) \<Rightarrow>
        map_option (\<lambda>arr. s1\<lparr>global_rules := arr\<rparr>)
          (set_expect r chk code act args (global_rules s1)))"

definition expect_globally_condition ::
  "(hci_event_pckt \<Rightarrow> bool) \<Rightarrow> 'u event_action_ptr_t \<Rightarrow> arg_t \<Rightarrow> 'u engine \<Rightarrow> 'u engine option" where
  "expect_globally_condition cond act args s =
     (case new_global_rule s of (r, s1) \<Rightarrow>
        map_option (\<lambda>arr. s1\<lparr>global_rules := arr\<rparr>)
          (set_expect_condition r cond act args (global_rules s1)))"


section \<open>production.cpp: matching, firing and \<^verbatim>\<open>run_production\<close>\<close>

text \<open>The comparisons are made on the promoted integers: a byte is widened to 16 bits.\<close>

fun check4event :: "hci_event_pckt \<Rightarrow> check_t \<Rightarrow> uint16_t \<Rightarrow> bool" where
  "check4event event_pckt event_check code \<longleftrightarrow> ucast (evt event_pckt) = code"
| "check4event event_pckt le_meta_event_check code \<longleftrightarrow>
     evt event_pckt = EVT_LE_META_EVENT \<and> ucast (subevent event_pckt) = code"
| "check4event event_pckt reset_reason code \<longleftrightarrow>
     evt event_pckt = EVT_VENDOR \<and> blue_ecode event_pckt = EVT_BLUE_HAL_INITIALIZED
     \<and> ucast (reason_code event_pckt) = code"
| "check4event event_pckt ecode code \<longleftrightarrow> blue_ecode event_pckt = code"
| "check4event event_pckt procedure_complete code \<longleftrightarrow>
     evt event_pckt = EVT_VENDOR \<and> blue_ecode event_pckt = EVT_BLUE_GAP_PROCEDURE_COMPLETE
     \<and> ucast (procedure_code event_pckt) = code"
| "check4event event_pckt no_check code \<longleftrightarrow> False"
| "check4event event_pckt condition_check code \<longleftrightarrow> False"

definition fire_rule :: "'u rule_t \<Rightarrow> hci_event_pckt \<Rightarrow> 'u \<Rightarrow> bool \<times> 'u" where
  "fire_rule r event_pckt u =
     (let do_action =
            (if check_type r = condition_check then
               (case event_condition r of Some cond \<Rightarrow> cond event_pckt | None \<Rightarrow> False)
             else check4event event_pckt (check_type r) (event_code r))
      in if do_action then
           (case event_action r of
              Some act \<Rightarrow> (do_action, snd (act event_pckt (action_args r) u))
            | None \<Rightarrow> (do_action, u))
         else (do_action, u))"


text \<open>The three iteration loops of \<^verbatim>\<open>run_production\<close>. Each is a \<^verbatim>\<open>while\<close> over a cursor
  that is compared with the count for equality; \<open>None\<close> stands for a run that does not
  return or that leaves an array.\<close>

partial_function (option) exclusive_rules_loop ::
  "hci_event_pckt \<Rightarrow> bool \<Rightarrow> 'u engine \<Rightarrow> (bool \<times> 'u engine) option" where
  "exclusive_rules_loop event_pckt did_rule s =
     (if \<not> exclusive_rules_done s \<and> \<not> did_rule then
        (case next_exclusive_rule s of (r, s1) \<Rightarrow>
           (case deref (exclusive_rules s1) r of
              None \<Rightarrow> None
            | Some rule \<Rightarrow>
                (case fire_rule rule event_pckt (user s1) of (fired, u) \<Rightarrow>
                   if fired then
                     exclusive_rules_loop event_pckt True (s1\<lparr>user := u, rule_matched := True\<rparr>)
                   else exclusive_rules_loop event_pckt did_rule (s1\<lparr>user := u\<rparr>))))
      else Some (did_rule, s))"

partial_function (option) rules_loop ::
  "hci_event_pckt \<Rightarrow> bool \<Rightarrow> 'u engine \<Rightarrow> (bool \<times> 'u engine) option" where
  "rules_loop event_pckt did_rule s =
     (if \<not> rules_done s then
        (case next_rule s of (r, s1) \<Rightarrow>
           (case deref (rules s1) r of
              None \<Rightarrow> None
            | Some rule \<Rightarrow>
                (case fire_rule rule event_pckt (user s1) of (fired, u) \<Rightarrow>
                   if fired then
                     rules_loop event_pckt True (s1\<lparr>user := u, rule_matched := True\<rparr>)
                   else rules_loop event_pckt did_rule (s1\<lparr>user := u\<rparr>))))
      else Some (did_rule, s))"

partial_function (option) global_rules_loop ::
  "hci_event_pckt \<Rightarrow> bool \<Rightarrow> 'u engine \<Rightarrow> (bool \<times> 'u engine) option" where
  "global_rules_loop event_pckt did_rule s =
     (if \<not> global_rules_done s \<and> \<not> did_rule then
        (case next_global_rule s of (r, s1) \<Rightarrow>
           (case deref (global_rules s1) r of
              None \<Rightarrow> None
            | Some rule \<Rightarrow>
                (case fire_rule rule event_pckt (user s1) of (fired, u) \<Rightarrow>
                   if fired then global_rules_loop event_pckt True (s1\<lparr>user := u\<rparr>)
                   else global_rules_loop event_pckt did_rule (s1\<lparr>user := u\<rparr>))))
      else Some (did_rule, s))"

text \<open>The call \<^verbatim>\<open>(*until_condition)(event_pckt)\<close>.\<close>

definition call_until :: "until_t \<Rightarrow> hci_event_pckt \<Rightarrow> 'u engine \<Rightarrow> bool" where
  "call_until f event_pckt s = (case f of timeout_fn \<Rightarrow> timeout s | user_until g \<Rightarrow> g event_pckt)"

text \<open>\<^verbatim>\<open>run_production\<close> returns \<open>0\<close> when the production is finished, \<open>1\<close> when it goes on and
  a rule was run, \<open>-1\<close> when it goes on and none was.\<close>

definition run_production :: "hci_uart_pckt \<Rightarrow> 'u engine \<Rightarrow> (int \<times> 'u engine) option" where
  "run_production pckt s =
     (if pckt_type pckt \<noteq> HCI_EVENT_PKT then Some (- 1, s)
      else
        let event_pckt = as_hci_event_pckt pckt in
        do {
          (did_rule, s) \<leftarrow> exclusive_rules_loop event_pckt False (exclusive_rules_start s);
          (did_rule, s) \<leftarrow> rules_loop event_pckt did_rule (rules_start s);
          (did_rule, s) \<leftarrow>
            (if \<not> did_rule then global_rules_loop event_pckt did_rule (global_rules_start s)
             else Some (did_rule, s));
          let keep_running = True;
              keep_running =
                (if until_condition s = None \<and> until_check s = no_check then False
                 else keep_running);
              keep_running =
                (if (case until_condition s of
                       Some f \<Rightarrow> call_until f event_pckt s | None \<Rightarrow> False)
                 then False else keep_running);
              keep_running =
                (if until_check s \<noteq> no_check
                    \<and> check4event event_pckt (until_check s) (until_check_event s)
                 then False else keep_running)
          in
            if \<not> keep_running then
              Some (0, until_event_clear (until_clear (exclusive_rules_clear (rules_clear s))))
            else if did_rule then Some (1, s)
            else Some (- 1, s)
        })"


declare exclusive_rules_loop.simps [code]
declare rules_loop.simps [code]
declare global_rules_loop.simps [code]


section \<open>protocol.cpp and the macros of protocol.h\<close>

definition set_current_protocol :: "protocol_ptr_t \<Rightarrow> 'u engine \<Rightarrow> 'u engine" where
  "set_current_protocol protocol s = s\<lparr>current_protocol := protocol\<rparr>"

definition get_current_protocol :: "'u engine \<Rightarrow> protocol_ptr_t" where
  "get_current_protocol s = current_protocol s"

definition clear_current_protocol :: "'u engine \<Rightarrow> 'u engine" where
  "clear_current_protocol s =
     (until_event_clear (until_clear (clear_exclusive_expectations (clear_expectations s))))
       \<lparr>current_protocol := None\<rparr>"

definition protocol_running :: "'u engine \<Rightarrow> bool" where
  "protocol_running s \<longleftrightarrow> current_protocol s \<noteq> None"

text \<open>
  A protocol function is written with the macros as
  \<^verbatim>\<open>PROTOCOL(p) BEGIN_PROTOCOL(p) code RUN_PRODUCTION code ... code END_PROTOCOL\<close>.
  The code of a step is the user's: it configures the next production and either runs
  into the macro that ends the step, with the value of the local \<^verbatim>\<open>protocol_success\<close>, or
  returns before it (\<^verbatim>\<open>ABORT_PROTOCOL\<close> returns \<^verbatim>\<open>false\<close>).
\<close>

datatype 'u code_result = Returned bool "'u engine" | Reached bool "'u engine"

type_synonym 'u code_t = "'u engine \<Rightarrow> 'u code_result"

datatype 'u yield_t = RUN_PRODUCTION | RUN_PRODUCTION_AND_REPEAT_IF "'u engine \<Rightarrow> bool"

type_synonym 'u protocol_t = "('u code_t \<times> 'u yield_t) list \<times> 'u code_t"

text \<open>The two yields take \<^verbatim>\<open>protocol_success\<close> and the static \<^verbatim>\<open>state\<close> of the protocol
  function, and give the returned value, the new \<^verbatim>\<open>state\<close> and the new statics.\<close>

definition run_production_macro ::
  "bool \<Rightarrow> uint16_t \<Rightarrow> 'u engine \<Rightarrow> bool \<times> uint16_t \<times> 'u engine" where
  "run_production_macro protocol_success state s =
     (case run_action_only_once s of (ret, s1) \<Rightarrow>
        if \<not> ret then (protocol_success, state, clear_current_protocol s1)
        else (protocol_success, state + 1, s1))"

definition run_production_and_repeat_if_macro ::
  "('u engine \<Rightarrow> bool) \<Rightarrow> bool \<Rightarrow> uint16_t \<Rightarrow> 'u engine \<Rightarrow> bool \<times> uint16_t \<times> 'u engine" where
  "run_production_and_repeat_if_macro cond protocol_success state s =
     (if \<not> protocol_success then (False, state, s)
      else
        (case run_action_only_once s of (ret, s1) \<Rightarrow>
           if \<not> ret then (True, state, clear_current_protocol s1)
           else (True, if \<not> cond s1 then state + 1 else state, s1)))"

definition end_protocol_macro ::
  "bool \<Rightarrow> uint16_t \<Rightarrow> 'u engine \<Rightarrow> bool \<times> uint16_t \<times> 'u engine" where
  "end_protocol_macro protocol_success state s = (protocol_success, 0, clear_current_protocol s)"

fun yield :: "'u yield_t \<Rightarrow> bool \<Rightarrow> uint16_t \<Rightarrow> 'u engine \<Rightarrow> bool \<times> uint16_t \<times> 'u engine" where
  "yield RUN_PRODUCTION = run_production_macro"
| "yield (RUN_PRODUCTION_AND_REPEAT_IF cond) = run_production_and_repeat_if_macro cond"

text \<open>The chain of \<^verbatim>\<open>if (state == state_compare++) { ... }\<close> blocks. A \<^verbatim>\<open>state\<close> that no
  block compares equal to lets control run off the end of the function: \<open>None\<close>.\<close>

fun protocol_blocks ::
  "uint16_t \<Rightarrow> uint16_t \<Rightarrow> ('u code_t \<times> 'u yield_t) list \<Rightarrow> 'u code_t \<Rightarrow> 'u engine \<Rightarrow>
   (bool \<times> uint16_t \<times> 'u engine) option" where
  "protocol_blocks state state_compare [] last_code s =
     (if state = state_compare then
        (case last_code s of
           Returned b s1 \<Rightarrow> Some (b, state, s1)
         | Reached protocol_success s1 \<Rightarrow> Some (end_protocol_macro protocol_success state s1))
      else None)"
| "protocol_blocks state state_compare ((code, y) # blocks) last_code s =
     (if state = state_compare then
        (case code s of
           Returned b s1 \<Rightarrow> Some (b, state, s1)
         | Reached protocol_success s1 \<Rightarrow> Some (yield y protocol_success state s1))
      else protocol_blocks state (state_compare + 1) blocks last_code s)"

text \<open>\<^verbatim>\<open>BEGIN_PROTOCOL\<close> opens the first block with \<^verbatim>\<open>set_current_protocol(protocol_name)\<close>.\<close>

definition protocol_function ::
  "nat \<Rightarrow> 'u protocol_t \<Rightarrow> uint16_t \<Rightarrow> 'u engine \<Rightarrow> (bool \<times> uint16_t \<times> 'u engine) option" where
  "protocol_function self p state s =
     (case p of
        ([], last_code) \<Rightarrow>
          protocol_blocks state 0 [] (\<lambda>s. last_code (set_current_protocol (Some self) s)) s
      | ((code, y) # blocks, last_code) \<Rightarrow>
          protocol_blocks state 0
            ((\<lambda>s. code (set_current_protocol (Some self) s), y) # blocks) last_code s)"

text \<open>\<^verbatim>\<open>run_current_protocol\<close>, the event callback. \<open>table\<close> gives the protocol function at
  each address, \<open>states\<close> the static \<^verbatim>\<open>state\<close> of each protocol function.\<close>

definition run_current_protocol ::
  "(nat \<Rightarrow> 'u protocol_t) \<Rightarrow> hci_uart_pckt \<Rightarrow> (nat \<Rightarrow> uint16_t) \<times> 'u engine \<Rightarrow>
   ((nat \<Rightarrow> uint16_t) \<times> 'u engine) option" where
  "run_current_protocol table pckt sys =
     (case sys of (states, s) \<Rightarrow>
        do {
          (production_result, s) \<leftarrow> run_production pckt s;
          if production_result = 0 then
            (case get_current_protocol s of
               Some p \<Rightarrow>
                 do {
                   (protocol_is_working, state, s) \<leftarrow> protocol_function p (table p) (states p) s;
                   Some (states(p := state),
                         if \<not> protocol_is_working then clear_current_protocol s else s)
                 }
             | None \<Rightarrow> Some (states, s))
          else Some (states, s)
        })"

text \<open>The variables of the two files when the program starts: C initialises them to zero.\<close>

definition zero_rule :: "'u rule_t" where
  "zero_rule = \<lparr>check_type = no_check, event_code = 0, event_condition = None,
                event_action = None, action_args = 0\<rparr>"

definition startup :: "unsigned_long \<Rightarrow> 'u \<Rightarrow> 'u engine" where
  "startup now u =
     \<lparr>action = None, action_args_static = 0, until_condition = None, until_check = no_check,
      until_check_event = 0, production_start = 0, timeout_milliseconds = 0,
      rule_matched = False, rules = (\<lambda>i. zero_rule), exclusive_rules = (\<lambda>i. zero_rule),
      global_rules = (\<lambda>i. zero_rule), num_rules = 0, num_exclusive_rules = 0,
      num_global_rules = 0, current_rule = 0, current_global_rule = 0,
      current_exclusive_rule = 0, current_protocol = None, millis = now, user = u\<rparr>"



section \<open>What a dispatch is specified to do\<close>

text \<open>The rule sets are the filled parts of the arrays, in insertion order.\<close>

definition normal_set :: "'u engine \<Rightarrow> 'u rule_t list" where
  "normal_set s = map (rules s) [0..<num_rules s]"

definition exclusive_set :: "'u engine \<Rightarrow> 'u rule_t list" where
  "exclusive_set s = map (exclusive_rules s) [0..<num_exclusive_rules s]"

definition global_set :: "'u engine \<Rightarrow> 'u rule_t list" where
  "global_set s = map (global_rules s) [0..<num_global_rules s]"

text \<open>A rule matches an event when its condition holds of it, or its check does.\<close>

definition rule_matches :: "hci_event_pckt \<Rightarrow> 'u rule_t \<Rightarrow> bool" where
  "rule_matches e r \<longleftrightarrow>
     (if check_type r = condition_check then
        (case event_condition r of Some cond \<Rightarrow> cond e | None \<Rightarrow> False)
      else check4event e (check_type r) (event_code r))"

text \<open>Invoking the action of a rule on the user's state; a rule without action invokes
  nothing.\<close>

definition invoke :: "hci_event_pckt \<Rightarrow> 'u \<Rightarrow> 'u rule_t \<Rightarrow> 'u" where
  "invoke e u r =
     (case event_action r of Some act \<Rightarrow> snd (act e (action_args r) u) | None \<Rightarrow> u)"

text \<open>The rules that fire on an event, in the order of the specification: the first
  matching exclusive rule, then every matching normal rule, then, if none of these
  matched, the first matching global rule.\<close>

definition fired_exclusive :: "hci_event_pckt \<Rightarrow> 'u engine \<Rightarrow> 'u rule_t list" where
  "fired_exclusive e s = take 1 (filter (rule_matches e) (exclusive_set s))"

definition fired_normal :: "hci_event_pckt \<Rightarrow> 'u engine \<Rightarrow> 'u rule_t list" where
  "fired_normal e s = filter (rule_matches e) (normal_set s)"

definition fired_global :: "hci_event_pckt \<Rightarrow> 'u engine \<Rightarrow> 'u rule_t list" where
  "fired_global e s =
     (if fired_exclusive e s = [] \<and> fired_normal e s = [] then
        take 1 (filter (rule_matches e) (global_set s))
      else [])"

definition firing_order :: "hci_event_pckt \<Rightarrow> 'u engine \<Rightarrow> 'u rule_t list" where
  "firing_order e s = fired_exclusive e s @ fired_normal e s @ fired_global e s"

text \<open>The arrays are used within their bounds.\<close>

definition within_capacity :: "'u engine \<Rightarrow> bool" where
  "within_capacity s \<longleftrightarrow>
     num_rules s \<le> MAX_RULES \<and> num_exclusive_rules s \<le> MAX_RULES
     \<and> num_global_rules s \<le> MAX_RULES"

text \<open>The until configuration ends a production on an event when no until is set, when
  the until function holds, or when the until event matches.\<close>

definition finished :: "hci_event_pckt \<Rightarrow> 'u engine \<Rightarrow> bool" where
  "finished e s \<longleftrightarrow>
     (until_condition s = None \<and> until_check s = no_check)
     \<or> (case until_condition s of Some f \<Rightarrow> call_until f e s | None \<Rightarrow> False)
     \<or> (until_check s \<noteq> no_check \<and> check4event e (until_check s) (until_check_event s))"


text \<open>A scan for the first match looks at the rules up to and including that match.\<close>

definition examined :: "hci_event_pckt \<Rightarrow> 'u rule_t list \<Rightarrow> nat" where
  "examined e rs =
     (let k = length (takeWhile (\<lambda>r. \<not> rule_matches e r) rs)
      in if k < length rs then Suc k else k)"

text \<open>The statics after each of the three scans of one event: a cursor, the user's state
  and, for the first two, the flag have moved; everything else is as before.\<close>

definition after_exclusive :: "hci_event_pckt \<Rightarrow> 'u engine \<Rightarrow> 'u engine" where
  "after_exclusive e s =
     s\<lparr>current_exclusive_rule := examined e (exclusive_set s),
       user := foldl (invoke e) (user s) (fired_exclusive e s),
       rule_matched := (rule_matched s \<or> fired_exclusive e s \<noteq> [])\<rparr>"

definition after_normal :: "hci_event_pckt \<Rightarrow> 'u engine \<Rightarrow> 'u engine" where
  "after_normal e s =
     s\<lparr>current_rule := num_rules s,
       user := foldl (invoke e) (user s) (fired_normal e s),
       rule_matched := (rule_matched s \<or> fired_normal e s \<noteq> [])\<rparr>"

definition after_global :: "hci_event_pckt \<Rightarrow> 'u engine \<Rightarrow> 'u engine" where
  "after_global e s =
     s\<lparr>current_global_rule := examined e (global_set s),
       user := foldl (invoke e) (user s) (take 1 (filter (rule_matches e) (global_set s)))\<rparr>"

definition after_rules :: "hci_event_pckt \<Rightarrow> 'u engine \<Rightarrow> 'u engine" where
  "after_rules e s =
     (if fired_exclusive e s = [] \<and> fired_normal e s = [] then
        after_global e (after_normal e (after_exclusive e s))
      else after_normal e (after_exclusive e s))"


section \<open>Scenarios\<close>

text \<open>Concrete rules, packets and states, with a user state that logs the actions run.\<close>

definition log_action :: "nat \<Rightarrow> hci_event_pckt \<Rightarrow> arg_t \<Rightarrow> nat list \<Rightarrow> bool \<times> nat list" where
  "log_action k e args u = (True, u @ [k])"

definition event_packet :: "uint8_t \<Rightarrow> uint8_t list \<Rightarrow> hci_uart_pckt" where
  "event_packet code payload =
     \<lparr>pckt_type = HCI_EVENT_PKT, pckt_data = bytes (code # of_nat (length payload) # payload)\<rparr>"

definition on_event :: "uint16_t \<Rightarrow> nat option \<Rightarrow> nat list rule_t" where
  "on_event code k =
     \<lparr>check_type = event_check, event_code = code, event_condition = None,
      event_action = map_option log_action k, action_args = 0\<rparr>"

definition scenario2 :: "nat list engine" where
  "scenario2 =
     (startup 0 [])
       \<lparr>exclusive_rules := (\<lambda>i. zero_rule)(0 := on_event 0x10 (Some 1)),
        num_exclusive_rules := 1,
        rules := (\<lambda>i. zero_rule)(0 := on_event 0x10 (Some 2), 1 := on_event 0x10 (Some 3)),
        num_rules := 2,
        global_rules := (\<lambda>i. zero_rule)(0 := on_event 0x10 (Some 9)),
        num_global_rules := 1\<rparr>"

text \<open>The fifth scenario of the specification at the clock reading \<open>now\<close>: a timeout of
  100 ms set at 0 and an until event that never comes.\<close>

definition scenario5 :: "unsigned_long \<Rightarrow> unit engine" where
  "scenario5 now = (until_event event_check 0x09 (set_timeout 100 (startup 0 ())))\<lparr>millis := now\<rparr>"


text \<open>\<open>n\<close> calls of \<^verbatim>\<open>expect\<close>.\<close>

primrec expect_times :: "nat \<Rightarrow> 'u engine \<Rightarrow> 'u engine option" where
  "expect_times 0 s = Some s"
| "expect_times (Suc n) s = Option.bind (expect_times n s) (expect event_check 0 None 0)"

text \<open>Two productions of one protocol: the first expects event \<open>0x10\<close> and gets it, the
  second expects event \<open>0x20\<close>.\<close>

definition first_production :: "unit engine option" where
  "first_production = expect event_check 0x10 None 0 (startup 0 ())"

definition second_production :: "unit engine option" where
  "second_production =
     do {
       a \<leftarrow> first_production;
       (r, b) \<leftarrow> run_production (event_packet 0x10 []) a;
       expect event_check 0x20 None 0 b
     }"

text \<open>One call of a protocol function, as a step on its static \<^verbatim>\<open>state\<close> and the
  statics of the engine.\<close>

definition call_protocol ::
  "nat \<Rightarrow> 'u protocol_t \<Rightarrow> uint16_t \<times> 'u engine \<Rightarrow> (uint16_t \<times> 'u engine) option" where
  "call_protocol self p st = map_option snd (protocol_function self p (fst st) (snd st))"

text \<open>A protocol of three steps that configure nothing.\<close>

definition three_steps :: "unit protocol_t" where
  "three_steps =
     ([(\<lambda>s. Reached True s, RUN_PRODUCTION), (\<lambda>s. Reached True s, RUN_PRODUCTION)],
      (\<lambda>s. Reached True s))"

text \<open>An action to perform that fails, pending in the second scenario while protocol 0
  is current.\<close>

definition failing_perform :: "arg_t \<Rightarrow> nat list \<Rightarrow> bool \<times> nat list" where
  "failing_perform args u = (False, u @ [0])"

definition failing :: "nat list engine" where
  "failing = perform (Some failing_perform) 0 (set_current_protocol (Some 0) scenario2)"

text \<open>Rules without an action that match event \<open>0x10\<close>: an exclusive rule behind one
  that does not match and before one that would, and a normal rule; and, in a state
  without other rules, a global rule before another. The until event \<open>0x55\<close> keeps the
  production running.\<close>

definition silent :: "nat list engine" where
  "silent =
     (startup 0 [])
       \<lparr>exclusive_rules :=
          (\<lambda>i. zero_rule)(0 := on_event 0x11 (Some 1), 1 := on_event 0x10 None,
                           2 := on_event 0x10 (Some 3)),
        num_exclusive_rules := 3,
        rules := (\<lambda>i. zero_rule)(0 := on_event 0x10 None),
        num_rules := 1,
        global_rules := (\<lambda>i. zero_rule)(0 := on_event 0x10 (Some 9)),
        num_global_rules := 1,
        until_check := event_check, until_check_event := 0x55\<rparr>"

definition silent_global :: "nat list engine" where
  "silent_global =
     (startup 0 [])
       \<lparr>global_rules := (\<lambda>i. zero_rule)(0 := on_event 0x10 None, 1 := on_event 0x10 (Some 9)),
        num_global_rules := 2,
        until_check := event_check, until_check_event := 0x55\<rparr>"


text \<open>An action to perform that succeeds, pending in the second scenario while protocol 0
  is current.\<close>

definition ok_perform :: "arg_t \<Rightarrow> nat list \<Rightarrow> bool \<times> nat list" where
  "ok_perform args u = (True, u @ [0])"

definition performing :: "nat list engine" where
  "performing = perform (Some ok_perform) 0 (set_current_protocol (Some 0) scenario2)"


section \<open>The loops of \<^verbatim>\<open>run_production\<close> computed\<close>

lemma fire_rule_eq:
  "fire_rule r e u = (rule_matches e r, if rule_matches e r then invoke e u r else u)"
  by (simp add: fire_rule_def rule_matches_def invoke_def Let_def split: option.splits)

lemma exclusive_rules_loop_did: "exclusive_rules_loop e True s = Some (True, s)"
  by (subst exclusive_rules_loop.simps) simp

lemma global_rules_loop_did: "global_rules_loop e True s = Some (True, s)"
  by (subst global_rules_loop.simps) simp

lemma exclusive_rules_loop_scan:
  assumes "current_exclusive_rule s \<le> num_exclusive_rules s"
    and "num_exclusive_rules s \<le> MAX_RULES"
  shows "exclusive_rules_loop e False s =
     (let pending = map (exclusive_rules s) [current_exclusive_rule s..<num_exclusive_rules s]
      in case filter (rule_matches e) pending of
           [] \<Rightarrow> Some (False, s\<lparr>current_exclusive_rule := num_exclusive_rules s\<rparr>)
         | r # _ \<Rightarrow>
             Some (True,
               s\<lparr>current_exclusive_rule :=
                   current_exclusive_rule s
                     + Suc (length (takeWhile (\<lambda>r. \<not> rule_matches e r) pending)),
                 user := invoke e (user s) r, rule_matched := True\<rparr>))"
  using assms
proof (induction "num_exclusive_rules s - current_exclusive_rule s" arbitrary: s)
  case 0
  then have eq: "current_exclusive_rule s = num_exclusive_rules s" by simp
  have "s\<lparr>current_exclusive_rule := num_exclusive_rules s\<rparr> = s"
    using eq [symmetric] by simp
  then show ?case
    by (subst exclusive_rules_loop.simps) (simp add: exclusive_rules_done_def eq)
next
  case (Suc d)
  let ?c = "current_exclusive_rule s"
  let ?n = "num_exclusive_rules s"
  from Suc have lt: "?c < ?n" by simp
  then have upt: "[?c..<?n] = ?c # [Suc ?c..<?n]" by (simp add: upt_conv_Cons)
  from lt Suc.prems have inb: "?c < MAX_RULES" by simp
  let ?r = "exclusive_rules s ?c"
  let ?s1 = "s\<lparr>current_exclusive_rule := ?c + 1\<rparr>"
  show ?case
  proof (cases "rule_matches e ?r")
    case True
    then show ?thesis
      using lt inb
      by (subst exclusive_rules_loop.simps)
        (simp add: exclusive_rules_done_def next_exclusive_rule_def deref_def fire_rule_eq
          exclusive_rules_loop_did upt)
  next
    case False
    have ih: "exclusive_rules_loop e False ?s1 =
     (let pending = map (exclusive_rules ?s1) [current_exclusive_rule ?s1..<num_exclusive_rules ?s1]
      in case filter (rule_matches e) pending of
           [] \<Rightarrow> Some (False, ?s1\<lparr>current_exclusive_rule := num_exclusive_rules ?s1\<rparr>)
         | r # _ \<Rightarrow>
             Some (True,
               ?s1\<lparr>current_exclusive_rule :=
                   current_exclusive_rule ?s1
                     + Suc (length (takeWhile (\<lambda>r. \<not> rule_matches e r) pending)),
                 user := invoke e (user ?s1) r, rule_matched := True\<rparr>))"
      using Suc.hyps(2) Suc.prems lt by (intro Suc.hyps(1)) simp_all
    have step: "exclusive_rules_loop e False s = exclusive_rules_loop e False ?s1"
      using lt inb False
      by (subst exclusive_rules_loop.simps)
        (simp add: exclusive_rules_done_def next_exclusive_rule_def deref_def fire_rule_eq)
    show ?thesis
      unfolding step ih using False
      by (simp add: upt Let_def split: list.splits)
  qed
qed


lemma global_rules_loop_scan:
  assumes "current_global_rule s \<le> num_global_rules s"
    and "num_global_rules s \<le> MAX_RULES"
  shows "global_rules_loop e False s =
     (let pending = map (global_rules s) [current_global_rule s..<num_global_rules s]
      in case filter (rule_matches e) pending of
           [] \<Rightarrow> Some (False, s\<lparr>current_global_rule := num_global_rules s\<rparr>)
         | r # _ \<Rightarrow>
             Some (True,
               s\<lparr>current_global_rule :=
                   current_global_rule s
                     + Suc (length (takeWhile (\<lambda>r. \<not> rule_matches e r) pending)),
                 user := invoke e (user s) r\<rparr>))"
  using assms
proof (induction "num_global_rules s - current_global_rule s" arbitrary: s)
  case 0
  then have eq: "current_global_rule s = num_global_rules s" by simp
  have "s\<lparr>current_global_rule := num_global_rules s\<rparr> = s"
    using eq [symmetric] by simp
  then show ?case
    by (subst global_rules_loop.simps) (simp add: global_rules_done_def eq)
next
  case (Suc d)
  let ?c = "current_global_rule s"
  let ?n = "num_global_rules s"
  from Suc have lt: "?c < ?n" by simp
  then have upt: "[?c..<?n] = ?c # [Suc ?c..<?n]" by (simp add: upt_conv_Cons)
  from lt Suc.prems have inb: "?c < MAX_RULES" by simp
  let ?r = "global_rules s ?c"
  let ?s1 = "s\<lparr>current_global_rule := ?c + 1\<rparr>"
  show ?case
  proof (cases "rule_matches e ?r")
    case True
    then show ?thesis
      using lt inb
      by (subst global_rules_loop.simps)
        (simp add: global_rules_done_def next_global_rule_def deref_def fire_rule_eq
          global_rules_loop_did upt)
  next
    case False
    have ih: "global_rules_loop e False ?s1 =
     (let pending = map (global_rules ?s1) [current_global_rule ?s1..<num_global_rules ?s1]
      in case filter (rule_matches e) pending of
           [] \<Rightarrow> Some (False, ?s1\<lparr>current_global_rule := num_global_rules ?s1\<rparr>)
         | r # _ \<Rightarrow>
             Some (True,
               ?s1\<lparr>current_global_rule :=
                   current_global_rule ?s1
                     + Suc (length (takeWhile (\<lambda>r. \<not> rule_matches e r) pending)),
                 user := invoke e (user ?s1) r\<rparr>))"
      using Suc.hyps(2) Suc.prems lt by (intro Suc.hyps(1)) simp_all
    have step: "global_rules_loop e False s = global_rules_loop e False ?s1"
      using lt inb False
      by (subst global_rules_loop.simps)
        (simp add: global_rules_done_def next_global_rule_def deref_def fire_rule_eq)
    show ?thesis
      unfolding step ih using False
      by (simp add: upt Let_def split: list.splits)
  qed
qed

lemma rules_loop_scan:
  assumes "current_rule s \<le> num_rules s" and "num_rules s \<le> MAX_RULES"
  shows "rules_loop e did s =
     (let fired = filter (rule_matches e) (map (rules s) [current_rule s..<num_rules s])
      in Some (did \<or> fired \<noteq> [],
               s\<lparr>current_rule := num_rules s, user := foldl (invoke e) (user s) fired,
                 rule_matched := rule_matched s \<or> fired \<noteq> []\<rparr>))"
  using assms
proof (induction "num_rules s - current_rule s" arbitrary: s did)
  case 0
  then have eq: "current_rule s = num_rules s" by simp
  have "s\<lparr>current_rule := num_rules s, user := user s, rule_matched := rule_matched s\<rparr> = s"
    using eq [symmetric] by simp
  then show ?case
    by (subst rules_loop.simps) (simp add: rules_done_def eq)
next
  case (Suc d)
  let ?c = "current_rule s"
  let ?n = "num_rules s"
  from Suc have lt: "?c < ?n" by simp
  then have upt: "[?c..<?n] = ?c # [Suc ?c..<?n]" by (simp add: upt_conv_Cons)
  from lt Suc.prems have inb: "?c < MAX_RULES" by simp
  let ?r = "rules s ?c"
  show ?case
  proof (cases "rule_matches e ?r")
    case True
    let ?s1 = "s\<lparr>current_rule := ?c + 1, user := invoke e (user s) ?r, rule_matched := True\<rparr>"
    have ih: "rules_loop e True ?s1 =
     (let fired = filter (rule_matches e) (map (rules ?s1) [current_rule ?s1..<num_rules ?s1])
      in Some (True \<or> fired \<noteq> [],
               ?s1\<lparr>current_rule := num_rules ?s1, user := foldl (invoke e) (user ?s1) fired,
                 rule_matched := rule_matched ?s1 \<or> fired \<noteq> []\<rparr>))"
      using Suc.hyps(2) Suc.prems lt by (intro Suc.hyps(1)) simp_all
    have step: "rules_loop e did s = rules_loop e True ?s1"
      using lt inb True
      by (subst rules_loop.simps)
        (simp add: rules_done_def next_rule_def deref_def fire_rule_eq)
    show ?thesis
      unfolding step ih using True by (simp add: upt Let_def)
  next
    case False
    let ?s1 = "s\<lparr>current_rule := ?c + 1\<rparr>"
    have ih: "rules_loop e did ?s1 =
     (let fired = filter (rule_matches e) (map (rules ?s1) [current_rule ?s1..<num_rules ?s1])
      in Some (did \<or> fired \<noteq> [],
               ?s1\<lparr>current_rule := num_rules ?s1, user := foldl (invoke e) (user ?s1) fired,
                 rule_matched := rule_matched ?s1 \<or> fired \<noteq> []\<rparr>))"
      using Suc.hyps(2) Suc.prems lt by (intro Suc.hyps(1)) simp_all
    have step: "rules_loop e did s = rules_loop e did ?s1"
      using lt inb False
      by (subst rules_loop.simps)
        (simp add: rules_done_def next_rule_def deref_def fire_rule_eq)
    show ?thesis
      unfolding step ih using False by (simp add: upt Let_def)
  qed
qed

lemma examined_none: "filter (rule_matches e) rs = [] \<Longrightarrow> examined e rs = length rs"
  by (simp add: examined_def Let_def filter_empty_conv takeWhile_eq_all_conv [THEN iffD2])

lemma examined_some:
  assumes "filter (rule_matches e) rs = r # rest"
  shows "examined e rs = Suc (length (takeWhile (\<lambda>r. \<not> rule_matches e r) rs))"
proof -
  have "\<exists>x \<in> set rs. rule_matches e x"
    using assms by (metis filter_empty_conv list.distinct(1))
  then have "length (takeWhile (\<lambda>r. \<not> rule_matches e r) rs) < length rs"
    by (induction rs) auto
  then show ?thesis by (simp add: examined_def Let_def)
qed

lemma exclusive_scan_start:
  assumes "num_exclusive_rules s \<le> MAX_RULES"
  shows "exclusive_rules_loop e False (exclusive_rules_start s) =
     Some (fired_exclusive e s \<noteq> [], after_exclusive e s)"
proof (cases "filter (rule_matches e) (exclusive_set s)")
  case Nil
  then show ?thesis
    using assms examined_none [OF Nil]
    by (simp add: exclusive_rules_loop_scan exclusive_rules_start_def fired_exclusive_def
        exclusive_set_def after_exclusive_def)
next
  case (Cons r rest)
  then show ?thesis
    using assms examined_some [OF Cons]
    by (simp add: exclusive_rules_loop_scan exclusive_rules_start_def fired_exclusive_def
        exclusive_set_def after_exclusive_def)
qed

lemma global_scan_start:
  assumes "num_global_rules s \<le> MAX_RULES"
  shows "global_rules_loop e False (global_rules_start s) =
     Some (take 1 (filter (rule_matches e) (global_set s)) \<noteq> [], after_global e s)"
proof (cases "filter (rule_matches e) (global_set s)")
  case Nil
  then show ?thesis
    using assms examined_none [OF Nil]
    by (simp add: global_rules_loop_scan global_rules_start_def global_set_def
        after_global_def)
next
  case (Cons r rest)
  then show ?thesis
    using assms examined_some [OF Cons]
    by (simp add: global_rules_loop_scan global_rules_start_def global_set_def
        after_global_def)
qed

lemma rules_scan_start:
  assumes "num_rules s \<le> MAX_RULES"
  shows "rules_loop e did (rules_start s) =
     Some (did \<or> fired_normal e s \<noteq> [], after_normal e s)"
  using assms
  by (simp add: rules_loop_scan rules_start_def fired_normal_def normal_set_def Let_def
      after_normal_def)

lemma fired_normal_after_exclusive: "fired_normal e (after_exclusive e s) = fired_normal e s"
  by (simp add: fired_normal_def normal_set_def after_exclusive_def)

lemma global_set_after_normal: "global_set (after_normal e s) = global_set s"
  by (simp add: global_set_def after_normal_def)

lemma global_set_after_exclusive: "global_set (after_exclusive e s) = global_set s"
  by (simp add: global_set_def after_exclusive_def)

lemma num_after:
  "num_rules (after_exclusive e s) = num_rules s"
  "num_global_rules (after_exclusive e s) = num_global_rules s"
  "num_global_rules (after_normal e s) = num_global_rules s"
  by (simp_all add: after_exclusive_def after_normal_def)

lemma finished_cong:
  assumes "until_condition s' = until_condition s" and "until_check s' = until_check s"
    and "until_check_event s' = until_check_event s"
    and "production_start s' = production_start s"
    and "timeout_milliseconds s' = timeout_milliseconds s" and "millis s' = millis s"
  shows "finished e s' = finished e s"
  using assms
  by (simp add: finished_def call_until_def timeout_def split: option.splits until_t.splits)

lemma finished_after_rules: "finished e (after_rules e s) = finished e s"
  by (rule finished_cong)
    (simp_all add: after_rules_def after_global_def after_normal_def after_exclusive_def)

lemma keep_running_finished:
  "(let keep_running = True;
        keep_running =
          (if until_condition s = None \<and> until_check s = no_check then False
           else keep_running);
        keep_running =
          (if (case until_condition s of
                 Some f \<Rightarrow> call_until f e s | None \<Rightarrow> False)
           then False else keep_running);
        keep_running =
          (if until_check s \<noteq> no_check \<and> check4event e (until_check s) (until_check_event s)
           then False else keep_running)
    in h keep_running) = h (\<not> finished e s)"
  by (auto simp add: finished_def Let_def split: option.splits)

lemma run_production_event:
  assumes ev: "pckt_type pckt = HCI_EVENT_PKT" and cap: "within_capacity s"
  shows "run_production pckt s =
     Some (if finished (as_hci_event_pckt pckt) s then
             (0, until_event_clear (until_clear (exclusive_rules_clear
                   (rules_clear (after_rules (as_hci_event_pckt pckt) s)))))
           else if firing_order (as_hci_event_pckt pckt) s \<noteq> [] then
             (1, after_rules (as_hci_event_pckt pckt) s)
           else (- 1, after_rules (as_hci_event_pckt pckt) s))"
proof -
  let ?e = "as_hci_event_pckt pckt"
  let ?s2 = "after_exclusive ?e s"
  let ?s3 = "after_normal ?e ?s2"
  let ?d2 = "fired_exclusive ?e s \<noteq> [] \<or> fired_normal ?e s \<noteq> []"
  from cap have c1: "num_exclusive_rules s \<le> MAX_RULES" and c2: "num_rules ?s2 \<le> MAX_RULES"
    and c3: "num_global_rules ?s3 \<le> MAX_RULES"
    by (simp_all add: within_capacity_def num_after)
  have l1: "exclusive_rules_loop ?e False (exclusive_rules_start s)
            = Some (fired_exclusive ?e s \<noteq> [], ?s2)"
    by (rule exclusive_scan_start [OF c1])
  have l2: "rules_loop ?e (fired_exclusive ?e s \<noteq> []) (rules_start ?s2) = Some (?d2, ?s3)"
    by (simp only: rules_scan_start [OF c2] fired_normal_after_exclusive)
  have l3: "global_rules_loop ?e False (global_rules_start ?s3)
        = Some (take 1 (filter (rule_matches ?e) (global_set s)) \<noteq> [], after_global ?e ?s3)"
    by (simp only: global_scan_start [OF c3] global_set_after_normal
        global_set_after_exclusive)
  have run: "run_production pckt s =
      Option.bind (if \<not> ?d2 then global_rules_loop ?e ?d2 (global_rules_start ?s3)
                   else Some (?d2, ?s3))
        (\<lambda>(did_rule, s').
           if finished ?e s' then
             Some (0, until_event_clear (until_clear (exclusive_rules_clear (rules_clear s'))))
           else if did_rule then Some (1, s') else Some (- 1, s'))"
    unfolding run_production_def Let_def [of ?e] keep_running_finished
    by (simp only: ev l1 l2 bind.bind_lunit case_prod_conv if_False simp_thms)
  show ?thesis
  proof (cases ?d2)
    case True
    then have a: "after_rules ?e s = ?s3" by (auto simp add: after_rules_def)
    have k: "firing_order ?e s \<noteq> []" using True by (auto simp add: firing_order_def)
    have f: "finished ?e ?s3 = finished ?e s"
      using finished_after_rules [of ?e s] by (simp only: a)
    show ?thesis
      unfolding run a using True k by (simp add: f)
  next
    case False
    then have a: "after_rules ?e s = after_global ?e ?s3" by (simp add: after_rules_def)
    have k: "firing_order ?e s \<noteq> [] \<longleftrightarrow> take 1 (filter (rule_matches ?e) (global_set s)) \<noteq> []"
      using False by (simp add: firing_order_def fired_global_def)
    have f: "finished ?e (after_global ?e ?s3) = finished ?e s"
      using finished_after_rules [of ?e s] by (simp only: a)
    have d: "(if \<not> ?d2 then global_rules_loop ?e ?d2 (global_rules_start ?s3)
                   else Some (?d2, ?s3))
        = Some (take 1 (filter (rule_matches ?e) (global_set s)) \<noteq> [], after_global ?e ?s3)"
      using False l3 by simp
    show ?thesis
      unfolding run d a k by (simp add: f)
  qed
qed

lemma scenario2_built:
  "do { s \<leftarrow> expect_globally event_check 0x10 (Some (log_action 9)) 0 (startup 0 []);
        s \<leftarrow> expect_ex event_check 0x10 (Some (log_action 1)) 0 s;
        s \<leftarrow> expect event_check 0x10 (Some (log_action 2)) 0 s;
        expect event_check 0x10 (Some (log_action 3)) 0 s } = Some scenario2"
  by (simp add: scenario2_def startup_def expect_def expect_ex_def expect_globally_def
      new_rule_def new_exclusive_rule_def new_global_rule_def set_expect_def MAX_RULES_def
      on_event_def)

lemma after_exclusive_sel:
  "action (after_exclusive e s) = action s"
  "action_args_static (after_exclusive e s) = action_args_static s"
  "until_condition (after_exclusive e s) = until_condition s"
  "until_check (after_exclusive e s) = until_check s"
  "until_check_event (after_exclusive e s) = until_check_event s"
  "production_start (after_exclusive e s) = production_start s"
  "timeout_milliseconds (after_exclusive e s) = timeout_milliseconds s"
  "rules (after_exclusive e s) = rules s"
  "exclusive_rules (after_exclusive e s) = exclusive_rules s"
  "global_rules (after_exclusive e s) = global_rules s"
  "num_exclusive_rules (after_exclusive e s) = num_exclusive_rules s"
  "current_protocol (after_exclusive e s) = current_protocol s"
  "millis (after_exclusive e s) = millis s"
  "current_rule (after_exclusive e s) = current_rule s"
  "current_global_rule (after_exclusive e s) = current_global_rule s"
  "current_exclusive_rule (after_exclusive e s) = examined e (exclusive_set s)"
  "user (after_exclusive e s) = foldl (invoke e) (user s) (fired_exclusive e s)"
  "rule_matched (after_exclusive e s) \<longleftrightarrow> rule_matched s \<or> fired_exclusive e s \<noteq> []"
  by (simp_all add: after_exclusive_def)

lemma after_normal_sel:
  "action (after_normal e s) = action s"
  "action_args_static (after_normal e s) = action_args_static s"
  "until_condition (after_normal e s) = until_condition s"
  "until_check (after_normal e s) = until_check s"
  "until_check_event (after_normal e s) = until_check_event s"
  "production_start (after_normal e s) = production_start s"
  "timeout_milliseconds (after_normal e s) = timeout_milliseconds s"
  "rules (after_normal e s) = rules s"
  "exclusive_rules (after_normal e s) = exclusive_rules s"
  "global_rules (after_normal e s) = global_rules s"
  "num_rules (after_normal e s) = num_rules s"
  "num_exclusive_rules (after_normal e s) = num_exclusive_rules s"
  "current_protocol (after_normal e s) = current_protocol s"
  "millis (after_normal e s) = millis s"
  "current_rule (after_normal e s) = num_rules s"
  "current_global_rule (after_normal e s) = current_global_rule s"
  "current_exclusive_rule (after_normal e s) = current_exclusive_rule s"
  "user (after_normal e s) = foldl (invoke e) (user s) (fired_normal e s)"
  "rule_matched (after_normal e s) \<longleftrightarrow> rule_matched s \<or> fired_normal e s \<noteq> []"
  by (simp_all add: after_normal_def)

lemma after_global_sel:
  "action (after_global e s) = action s"
  "action_args_static (after_global e s) = action_args_static s"
  "until_condition (after_global e s) = until_condition s"
  "until_check (after_global e s) = until_check s"
  "until_check_event (after_global e s) = until_check_event s"
  "production_start (after_global e s) = production_start s"
  "timeout_milliseconds (after_global e s) = timeout_milliseconds s"
  "rules (after_global e s) = rules s"
  "exclusive_rules (after_global e s) = exclusive_rules s"
  "global_rules (after_global e s) = global_rules s"
  "num_rules (after_global e s) = num_rules s"
  "num_exclusive_rules (after_global e s) = num_exclusive_rules s"
  "num_global_rules (after_global e s) = num_global_rules s"
  "current_protocol (after_global e s) = current_protocol s"
  "millis (after_global e s) = millis s"
  "current_rule (after_global e s) = current_rule s"
  "current_global_rule (after_global e s) = examined e (global_set s)"
  "current_exclusive_rule (after_global e s) = current_exclusive_rule s"
  "user (after_global e s) =
     foldl (invoke e) (user s) (take 1 (filter (rule_matches e) (global_set s)))"
  "rule_matched (after_global e s) \<longleftrightarrow> rule_matched s"
  by (simp_all add: after_global_def)

lemmas after_sel =
  after_exclusive_sel after_normal_sel after_global_sel num_after
  fired_normal_after_exclusive global_set_after_normal global_set_after_exclusive

lemma user_after_rules:
  "user (after_rules e s) = foldl (invoke e) (user s) (firing_order e s)"
  by (simp add: after_rules_def after_sel firing_order_def fired_global_def)

lemma rule_matched_after_rules:
  "rule_matched (after_rules e s) \<longleftrightarrow>
     rule_matched s \<or> fired_exclusive e s \<noteq> [] \<or> fired_normal e s \<noteq> []"
  by (simp add: after_rules_def after_sel)

lemma current_global_rule_after_rules:
  "current_global_rule (after_rules e s) =
     (if fired_exclusive e s = [] \<and> fired_normal e s = [] then examined e (global_set s)
      else current_global_rule s)"
  by (simp add: after_rules_def after_sel)

lemma current_exclusive_rule_after_rules:
  "current_exclusive_rule (after_rules e s) = examined e (exclusive_set s)"
  by (simp add: after_rules_def after_sel)

lemma after_rules_frame:
  "action (after_rules e s) = action s"
  "action_args_static (after_rules e s) = action_args_static s"
  "until_condition (after_rules e s) = until_condition s"
  "until_check (after_rules e s) = until_check s"
  "until_check_event (after_rules e s) = until_check_event s"
  "production_start (after_rules e s) = production_start s"
  "timeout_milliseconds (after_rules e s) = timeout_milliseconds s"
  "rules (after_rules e s) = rules s"
  "exclusive_rules (after_rules e s) = exclusive_rules s"
  "global_rules (after_rules e s) = global_rules s"
  "num_rules (after_rules e s) = num_rules s"
  "num_exclusive_rules (after_rules e s) = num_exclusive_rules s"
  "num_global_rules (after_rules e s) = num_global_rules s"
  "current_protocol (after_rules e s) = current_protocol s"
  "millis (after_rules e s) = millis s"
  by (simp_all add: after_rules_def after_sel)

lemma upt_small: "[0..<1] = [0]" "[0..<2] = [0, 1]" "[0..<3] = [0, 1, 2]"
  by code_simp+

lemma firing_order_scenario2:
  "firing_order (as_hci_event_pckt (event_packet 0x10 [])) scenario2 =
     [on_event 0x10 (Some 1), on_event 0x10 (Some 2), on_event 0x10 (Some 3)]"
  by (simp add: firing_order_def fired_exclusive_def fired_normal_def fired_global_def
      exclusive_set_def normal_set_def global_set_def scenario2_def startup_def
      rule_matches_def on_event_def as_hci_event_pckt_def event_packet_def bytes_def
      upt_small)

lemma no_rules_nothing_fires:
  assumes "num_rules s = 0" and "num_exclusive_rules s = 0" and "num_global_rules s = 0"
  shows "firing_order e s = []"
  using assms
  by (simp add: firing_order_def fired_exclusive_def fired_normal_def fired_global_def
      exclusive_set_def normal_set_def global_set_def)

lemma event_packet_type: "pckt_type (event_packet c p) = HCI_EVENT_PKT"
  by (simp add: event_packet_def)

lemma event_packet_evt: "evt (as_hci_event_pckt (event_packet c p)) = c"
  by (simp add: event_packet_def as_hci_event_pckt_def bytes_def)

lemma expect_times_fills:
  assumes "current_rule s \<noteq> MAX_RULES" and "num_rules s + n \<le> MAX_RULES"
  shows "\<exists>s'. expect_times n s = Some s' \<and> num_rules s' = num_rules s + n
     \<and> current_rule s' = current_rule s"
  using assms
proof (induction n)
  case 0
  then show ?case by simp
next
  case (Suc n)
  then obtain s' where s': "expect_times n s = Some s'" "num_rules s' = num_rules s + n"
    "current_rule s' = current_rule s"
    by auto
  with Suc.prems show ?case
    by (simp add: expect_def new_rule_def set_expect_def)
qed

lemma word16_of_nat_inj:
  assumes "a < 65536" and "b < 65536" and "(of_nat a :: uint16_t) = of_nat b"
  shows "a = b"
proof -
  from assms(3) have "unat (of_nat a :: uint16_t) = unat (of_nat b :: uint16_t)" by simp
  with assms(1,2) show ?thesis by (simp add: unat_of_nat)
qed

lemma protocol_blocks_at:
  assumes "k < length blocks" and "c + k < 65536"
  shows "protocol_blocks (of_nat (c + k)) (of_nat c) blocks last_code s =
     (case fst (blocks ! k) s of
        Returned b s1 \<Rightarrow> Some (b, of_nat (c + k), s1)
      | Reached protocol_success s1 \<Rightarrow>
          Some (yield (snd (blocks ! k)) protocol_success (of_nat (c + k)) s1))"
  using assms
proof (induction blocks arbitrary: c k)
  case Nil
  then show ?case by simp
next
  case (Cons blk blocks)
  obtain code y where blk: "blk = (code, y)" by (cases blk)
  show ?case
  proof (cases k)
    case 0
    then show ?thesis by (simp add: blk split: code_result.split)
  next
    case (Suc k')
    have e: "c + k = Suc c + k'" using Suc by simp
    have n: "(blk # blocks) ! k = blocks ! k'" using Suc by simp
    have w: "(of_nat c + 1 :: uint16_t) = of_nat (Suc c)" by simp
    have ne: "((of_nat (Suc c + k') :: uint16_t) = of_nat c) = False"
    proof -
      have "(of_nat (Suc c + k') :: uint16_t) \<noteq> of_nat c"
      proof
        assume "(of_nat (Suc c + k') :: uint16_t) = of_nat c"
        then have "Suc c + k' = c"
          using Cons.prems(2) Suc by (intro word16_of_nat_inj) simp_all
        then show False by simp
      qed
      then show ?thesis by simp
    qed
    have ih: "protocol_blocks (of_nat (Suc c + k')) (of_nat (Suc c)) blocks last_code s =
     (case fst (blocks ! k') s of
        Returned b s1 \<Rightarrow> Some (b, of_nat (Suc c + k'), s1)
      | Reached protocol_success s1 \<Rightarrow>
          Some (yield (snd (blocks ! k')) protocol_success (of_nat (Suc c + k')) s1))"
      using Cons.prems Suc by (intro Cons.IH) simp_all
    show ?thesis
      unfolding e n by (simp only: blk protocol_blocks.simps ne if_False w ih)
  qed
qed

lemma protocol_function_at:
  assumes "k < length blocks" and "k < 65536"
  shows "protocol_function self (blocks, last_code) (of_nat k) s =
     (case fst (blocks ! k) (if k = 0 then set_current_protocol (Some self) s else s) of
        Returned b s1 \<Rightarrow> Some (b, of_nat k, s1)
      | Reached protocol_success s1 \<Rightarrow>
          Some (yield (snd (blocks ! k)) protocol_success (of_nat k) s1))"
proof (cases blocks)
  case Nil
  with assms show ?thesis by simp
next
  case (Cons blk rest)
  obtain code y where blk: "blk = (code, y)" by (cases blk)
  let ?blocks' = "(\<lambda>s. code (set_current_protocol (Some self) s), y) # rest"
  have len: "k < length ?blocks'" using assms Cons by simp
  have "protocol_function self (blocks, last_code) (of_nat k) s =
      protocol_blocks (of_nat (0 + k)) (of_nat 0) ?blocks' last_code s"
    by (simp add: protocol_function_def Cons blk)
  also have "\<dots> = (case fst (?blocks' ! k) s of
        Returned b s1 \<Rightarrow> Some (b, of_nat (0 + k), s1)
      | Reached protocol_success s1 \<Rightarrow>
          Some (yield (snd (?blocks' ! k)) protocol_success (of_nat (0 + k)) s1))"
    using len assms(2) by (intro protocol_blocks_at) simp_all
  finally show ?thesis
    by (cases k) (simp_all add: Cons blk split: code_result.split)
qed

lemma clear_current_protocol_sel:
  "current_protocol (clear_current_protocol s) = None"
  "num_rules (clear_current_protocol s) = 0"
  "num_exclusive_rules (clear_current_protocol s) = 0"
  "until_condition (clear_current_protocol s) = None"
  "until_check (clear_current_protocol s) = no_check"
  "until_check_event (clear_current_protocol s) = 0"
  "rule_matched (clear_current_protocol s) = False"
  "action (clear_current_protocol s) = action s"
  "global_rules (clear_current_protocol s) = global_rules s"
  "num_global_rules (clear_current_protocol s) = num_global_rules s"
  by (simp_all add: clear_current_protocol_def until_event_clear_def until_clear_def
      clear_exclusive_expectations_def exclusive_rules_clear_def clear_expectations_def
      rules_clear_def)

lemma run_action_only_once_consumes: "action (snd (run_action_only_once s)) = None"
  by (simp add: run_action_only_once_def split: option.splits prod.splits)

lemma run_production_keeps_action:
  assumes "within_capacity s" and "run_production pckt s = Some (ret, s')"
  shows "action s' = action s \<and> action_args_static s' = action_args_static s"
proof (cases "pckt_type pckt = HCI_EVENT_PKT")
  case True
  show ?thesis
    using assms(2) unfolding run_production_event [OF True assms(1)]
    by (auto simp add: after_rules_frame until_event_clear_def until_clear_def
        exclusive_rules_clear_def rules_clear_def split: if_splits)
next
  case False
  with assms(2) show ?thesis by (simp add: run_production_def)
qed

lemma first_match_at:
  assumes "i < length xs" and "P (xs ! i)" and "\<forall>j<i. \<not> P (xs ! j)"
  shows "length (takeWhile (\<lambda>x. \<not> P x) xs) = i \<and> take 1 (filter P xs) = [xs ! i]"
  using assms
proof (induction xs arbitrary: i)
  case Nil
  then show ?case by simp
next
  case (Cons x xs)
  show ?case
  proof (cases i)
    case 0
    with Cons.prems show ?thesis by simp
  next
    case (Suc i')
    with Cons.prems have "\<not> P x" by auto
    moreover have "length (takeWhile (\<lambda>x. \<not> P x) xs) = i' \<and> take 1 (filter P xs) = [xs ! i']"
      using Cons.prems Suc by (intro Cons.IH) auto
    ultimately show ?thesis using Suc by simp
  qed
qed

lemma examined_first_match:
  assumes "i < length xs" and "rule_matches e (xs ! i)" and "\<forall>j<i. \<not> rule_matches e (xs ! j)"
  shows "examined e xs = Suc i" and "take 1 (filter (rule_matches e) xs) = [xs ! i]"
  using first_match_at [of i xs "rule_matches e", OF assms] assms(1)
  by (simp_all add: examined_def)

lemma run_production_result:
  assumes "pckt_type pckt = HCI_EVENT_PKT" and "within_capacity s"
    and "run_production pckt s = Some (ret, s')"
  shows "current_exclusive_rule s' = examined (as_hci_event_pckt pckt) (exclusive_set s)"
    and "current_global_rule s' = current_global_rule (after_rules (as_hci_event_pckt pckt) s)"
    and "rule_matched s' = rule_matched (after_rules (as_hci_event_pckt pckt) s)"
    and "user s' = user (after_rules (as_hci_event_pckt pckt) s)"
    and "firing_order (as_hci_event_pckt pckt) s \<noteq> [] \<Longrightarrow> ret \<noteq> - 1"
  using assms(3) unfolding run_production_event [OF assms(1,2)]
  by (auto simp add: current_exclusive_rule_after_rules until_event_clear_def until_clear_def
      exclusive_rules_clear_def rules_clear_def split: if_splits)

lemmas silent_defs =
  silent_def silent_global_def startup_def on_event_def zero_rule_def rule_matches_def
  event_packet_evt


lemma clear_current_protocol_keeps:
  "user (clear_current_protocol s) = user s"
  "action_args_static (clear_current_protocol s) = action_args_static s"
  "within_capacity s \<Longrightarrow> within_capacity (clear_current_protocol s)"
  by (simp_all add: clear_current_protocol_def until_event_clear_def until_clear_def
      clear_exclusive_expectations_def exclusive_rules_clear_def clear_expectations_def
      rules_clear_def within_capacity_def)

lemma run_action_only_once_user:
  "user (snd (run_action_only_once s)) =
     (case action s of Some act \<Rightarrow> snd (act (action_args_static s) (user s)) | None \<Rightarrow> user s)"
  "fst (run_action_only_once s) \<longleftrightarrow>
     (case action s of Some act \<Rightarrow> fst (act (action_args_static s) (user s)) | None \<Rightarrow> True)"
  "within_capacity s \<Longrightarrow> within_capacity (snd (run_action_only_once s))"
  by (simp_all add: run_action_only_once_def within_capacity_def
      split: option.splits prod.splits)

lemma yield_runs_perform:
  assumes "y = RUN_PRODUCTION \<or> protocol_success"
  shows "snd (snd (yield y protocol_success state s)) =
     (if fst (run_action_only_once s) then snd (run_action_only_once s)
      else clear_current_protocol (snd (run_action_only_once s)))"
    and "\<not> fst (run_action_only_once s) \<Longrightarrow> fst (snd (yield y protocol_success state s)) = state"
  using assms
  by (cases y; cases "run_action_only_once s";
      simp add: run_production_macro_def run_production_and_repeat_if_macro_def)+











section \<open>The claims\<close>

subsection \<open>Order of firing\<close>

text \<open>
  C1. For every dispatched event packet the rules fire in this order: at most the first
  matching exclusive rule, then every matching normal rule in insertion order, and the
  global rules are consulted only if no exclusive or normal rule matched, in which case at
  most the first matching global rule fires. The user's state after the dispatch is the
  one obtained by running the actions of \<open>firing_order\<close> one after the other, and the
  cursor of the global rules is not touched when an exclusive or normal rule matched.
\<close>

theorem rules_fire_in_order:
  assumes "pckt_type pckt = HCI_EVENT_PKT" and "within_capacity s"
  shows "\<exists>ret s'. run_production pckt s = Some (ret, s')
     \<and> user s' = foldl (invoke (as_hci_event_pckt pckt)) (user s)
                   (firing_order (as_hci_event_pckt pckt) s)
     \<and> (fired_exclusive (as_hci_event_pckt pckt) s \<noteq> []
          \<or> fired_normal (as_hci_event_pckt pckt) s \<noteq> []
        \<longrightarrow> current_global_rule s' = current_global_rule s)"
  using assms
  by (simp add: run_production_event user_after_rules current_global_rule_after_rules
      until_event_clear_def until_clear_def exclusive_rules_clear_def rules_clear_def)

text \<open>On the second scenario of the specification, with a global rule added that would
  match: the actions run are 1, 2, 3 and the global rules are not looked at.\<close>

theorem rules_fire_in_order_witness:
  "pckt_type (event_packet 0x10 []) = HCI_EVENT_PKT \<and> within_capacity scenario2
   \<and> (\<exists>ret s'. run_production (event_packet 0x10 []) scenario2 = Some (ret, s')
         \<and> user s' = [1, 2, 3] \<and> current_global_rule s' = 0)"
proof -
  have 1: "pckt_type (event_packet 0x10 []) = HCI_EVENT_PKT" by (simp add: event_packet_def)
  have 2: "within_capacity scenario2"
    by (simp add: within_capacity_def scenario2_def MAX_RULES_def)
  have 3: "fired_normal (as_hci_event_pckt (event_packet 0x10 [])) scenario2 \<noteq> []"
    by (simp add: fired_normal_def normal_set_def scenario2_def startup_def
      rule_matches_def on_event_def as_hci_event_pckt_def event_packet_def bytes_def
      upt_small)
  have 4: "foldl (invoke (as_hci_event_pckt (event_packet 0x10 []))) (user scenario2)
             (firing_order (as_hci_event_pckt (event_packet 0x10 [])) scenario2) = [1, 2, 3]"
    unfolding firing_order_scenario2
    by (simp add: invoke_def on_event_def log_action_def scenario2_def startup_def)
  have 5: "current_global_rule scenario2 = 0" by (simp add: scenario2_def startup_def)
  show ?thesis
    using rules_fire_in_order [OF 1 2] 1 2 3 unfolding 4 5 by simp
qed

subsection \<open>Single-shot productions\<close>

text \<open>
  C6. A production with neither an until function nor an until event is completed by one
  dispatch of an event packet: \<^verbatim>\<open>run_production\<close> returns 0 on the first event, whether
  or not a rule matched.
\<close>

theorem no_until_single_shot:
  assumes "pckt_type pckt = HCI_EVENT_PKT" and "within_capacity s"
    and "until_condition s = None" and "until_check s = no_check"
  shows "\<exists>s'. run_production pckt s = Some (0, s')"
  using assms by (simp add: run_production_event finished_def)

theorem no_until_single_shot_witness:
  "pckt_type (event_packet 0x10 []) = HCI_EVENT_PKT \<and> within_capacity scenario2
   \<and> until_condition scenario2 = None \<and> until_check scenario2 = no_check
   \<and> (\<exists>s'. run_production (event_packet 0x10 []) scenario2 = Some (0, s'))"
proof -
  have 1: "pckt_type (event_packet 0x10 []) = HCI_EVENT_PKT" by (simp add: event_packet_def)
  have 2: "within_capacity scenario2"
    by (simp add: within_capacity_def scenario2_def MAX_RULES_def)
  have 3: "until_condition scenario2 = None" by (simp add: scenario2_def startup_def)
  have 4: "until_check scenario2 = no_check" by (simp add: scenario2_def startup_def)
  show ?thesis using no_until_single_shot [OF 1 2 3 4] 1 2 3 4 by simp
qed

subsection \<open>Timeouts\<close>




subsection \<open>The end of a production\<close>

text \<open>
  C5 as stated fails: a dispatch that completes a production leaves the timeout as it
  was set.
\<close>

theorem done_keeps_timeout_counterexample:
  "map_option fst (run_production (event_packet 0x01 []) (set_timeout 100 (startup 5 ())))
     = Some 0
   \<and> map_option (timeout_milliseconds \<circ> snd)
       (run_production (event_packet 0x01 []) (set_timeout 100 (startup 5 ()))) = Some 100
   \<and> map_option (production_start \<circ> snd)
       (run_production (event_packet 0x01 []) (set_timeout 100 (startup 5 ()))) = Some 5"
proof -
  have w: "within_capacity (set_timeout 100 (startup 5 ()))"
    by (simp add: within_capacity_def set_timeout_def start_timeout_def startup_def)
  have f: "finished (as_hci_event_pckt (event_packet 0x01 [])) (set_timeout 100 (startup 5 ()))"
    by (simp add: finished_def set_timeout_def start_timeout_def startup_def)
  have r: "run_production (event_packet 0x01 []) (set_timeout 100 (startup 5 ())) =
      Some (0, until_event_clear (until_clear (exclusive_rules_clear (rules_clear
        (after_rules (as_hci_event_pckt (event_packet 0x01 []))
          (set_timeout 100 (startup 5 ())))))))"
    using run_production_event [OF event_packet_type w] f by simp
  show ?thesis
    unfolding r
    by (simp add: after_rules_frame until_event_clear_def until_clear_def
        exclusive_rules_clear_def rules_clear_def set_timeout_def start_timeout_def
        startup_def)
qed

text \<open>
  C5, amended. Whenever a dispatch completes a production, the normal rule set, the
  exclusive rule set, the until function and the until event are cleared, while the
  global rule set, \<^verbatim>\<open>timeout_milliseconds\<close> and \<^verbatim>\<open>production_start\<close> are left unchanged
  and \<^verbatim>\<open>rule_matched\<close> is not reset: it is true afterwards exactly when it was true
  before or an exclusive or normal rule matched the event.
\<close>

theorem done_clears:
  assumes "within_capacity s" and "run_production pckt s = Some (0, s')"
  shows "num_rules s' = 0 \<and> num_exclusive_rules s' = 0
     \<and> until_condition s' = None \<and> until_check s' = no_check \<and> until_check_event s' = 0
     \<and> global_rules s' = global_rules s \<and> num_global_rules s' = num_global_rules s
     \<and> timeout_milliseconds s' = timeout_milliseconds s
     \<and> production_start s' = production_start s
     \<and> (rule_matched s' \<longleftrightarrow>
          rule_matched s \<or> fired_exclusive (as_hci_event_pckt pckt) s \<noteq> []
          \<or> fired_normal (as_hci_event_pckt pckt) s \<noteq> [])"
proof -
  have ev: "pckt_type pckt = HCI_EVENT_PKT"
    using assms(2) by (cases "pckt_type pckt = HCI_EVENT_PKT") (simp_all add: run_production_def)
  let ?e = "as_hci_event_pckt pckt"
  have "s' = until_event_clear (until_clear (exclusive_rules_clear (rules_clear (after_rules ?e s))))"
    using assms(2) unfolding run_production_event [OF ev assms(1)]
    by (simp split: if_splits)
  then show ?thesis
    by (simp add: after_rules_frame rule_matched_after_rules
        until_event_clear_def until_clear_def exclusive_rules_clear_def rules_clear_def)
qed


theorem done_clears_witness:
  "within_capacity scenario2
   \<and> run_production (event_packet 0x10 []) scenario2 =
       Some (0, until_event_clear (until_clear (exclusive_rules_clear (rules_clear
              (after_rules (as_hci_event_pckt (event_packet 0x10 [])) scenario2)))))
   \<and> num_rules (until_event_clear (until_clear (exclusive_rules_clear (rules_clear
              (after_rules (as_hci_event_pckt (event_packet 0x10 [])) scenario2))))) = 0
   \<and> num_global_rules (until_event_clear (until_clear (exclusive_rules_clear (rules_clear
              (after_rules (as_hci_event_pckt (event_packet 0x10 [])) scenario2))))) = 1"
proof -
  have 1: "within_capacity scenario2"
    by (simp add: within_capacity_def scenario2_def MAX_RULES_def)
  have f: "finished (as_hci_event_pckt (event_packet 0x10 [])) scenario2"
    by (simp add: finished_def scenario2_def startup_def)
  have 2: "run_production (event_packet 0x10 []) scenario2 =
       Some (0, until_event_clear (until_clear (exclusive_rules_clear (rules_clear
              (after_rules (as_hci_event_pckt (event_packet 0x10 [])) scenario2)))))"
    using run_production_event [OF event_packet_type 1] f by simp
  have 3: "num_global_rules scenario2 = 1" by (simp add: scenario2_def)
  show ?thesis using done_clears [OF 1 2] 1 2 3 by simp
qed

subsection \<open>Matching a vendor event code\<close>

text \<open>
  C8. The check \<^verbatim>\<open>ecode\<close> is specified to match vendor events only. \<^verbatim>\<open>check4event\<close> does
  not test \<^verbatim>\<open>event_pckt->evt == EVT_VENDOR\<close> in that case, as it does for \<^verbatim>\<open>reset_reason\<close>
  and \<^verbatim>\<open>procedure_complete\<close>: a meta event whose payload starts with the bytes
  \<open>0x01, 0x0C\<close> matches the vendor code \<open>0x0C01\<close>.
\<close>

theorem ecode_matches_non_vendor_event:
  "evt \<lparr>evt = EVT_LE_META_EVENT, plen = 2, data = bytes [0x01, 0x0C]\<rparr> \<noteq> EVT_VENDOR
   \<and> check4event \<lparr>evt = EVT_LE_META_EVENT, plen = 2, data = bytes [0x01, 0x0C]\<rparr> ecode 0x0C01"
  by (simp add: EVT_LE_META_EVENT_def EVT_VENDOR_def blue_ecode_def bytes_def)

subsection \<open>Capacity\<close>

text \<open>
  C7. An add to a full set is specified to be rejected. \<^verbatim>\<open>new_rule\<close> compares the
  iteration cursor \<^verbatim>\<open>current_rule\<close>, not the count, with \<^verbatim>\<open>MAX_RULES\<close>: after twenty
  calls of \<^verbatim>\<open>expect\<close> from the start of the program the set is full, and the next call
  is handed \<^verbatim>\<open>&rules[MAX_RULES]\<close>, raises the count to 21 and writes outside the array.
\<close>

theorem full_set_accepts_another_rule:
  "map_option num_rules (expect_times 20 (startup 0 ())) = Some MAX_RULES
   \<and> map_option (fst \<circ> new_rule) (expect_times 20 (startup 0 ())) = Some (Some MAX_RULES)
   \<and> map_option (num_rules \<circ> snd \<circ> new_rule) (expect_times 20 (startup 0 ()))
       = Some (MAX_RULES + 1)
   \<and> expect_times 21 (startup 0 ()) = None"
proof -
  have c: "current_rule (startup 0 ()) \<noteq> MAX_RULES" "num_rules (startup 0 ()) = 0"
    by (simp_all add: startup_def MAX_RULES_def)
  obtain s' where s': "expect_times 20 (startup 0 ()) = Some s'" "num_rules s' = 20"
    "current_rule s' = 0"
    using expect_times_fills [of "startup 0 ()" 20] c
    by (auto simp add: MAX_RULES_def startup_def)
  have "expect_times 21 (startup 0 ()) = Option.bind (expect_times 20 (startup 0 ())) (expect event_check 0 None 0)"
    by (simp add: eval_nat_numeral)
  then show ?thesis
    using s' by (simp add: new_rule_def MAX_RULES_def expect_def set_expect_def)
qed

subsection \<open>\<^verbatim>\<open>met_expectations\<close>\<close>

text \<open>
  C4. \<^verbatim>\<open>met_expectations\<close> is specified, and documented in production.h, to tell whether
  a rule of the current production has run. \<^verbatim>\<open>rule_matched\<close> is only reset by
  \<^verbatim>\<open>clear_expectations\<close>, which the end of a production does not call: a rule that fired
  in the first production of a protocol makes \<^verbatim>\<open>met_expectations\<close> true after the second
  production, in which no exclusive and no normal rule matched.
\<close>

theorem met_expectations_from_earlier_production:
  "do {
     a \<leftarrow> first_production;
     (r, b) \<leftarrow> run_production (event_packet 0x10 []) a;
     c \<leftarrow> expect event_check 0x20 None 0 b;
     (r', d) \<leftarrow> run_production (event_packet 0x30 []) c;
     Some (r, r', fired_exclusive (as_hci_event_pckt (event_packet 0x30 [])) c = []
                 \<and> fired_normal (as_hci_event_pckt (event_packet 0x30 [])) c = [],
           met_expectations d)
   } = Some (0, 0, True, True)"
  by code_simp

subsection \<open>The action to perform\<close>

text \<open>
  C2. The action to perform is invoked at most once per production and before any rule of
  that production is evaluated. The yield that ends the step configuring the production
  (\<^verbatim>\<open>RUN_PRODUCTION\<close>, or \<^verbatim>\<open>RUN_PRODUCTION_AND_REPEAT_IF\<close> reached with
  \<^verbatim>\<open>protocol_success\<close>) applies a pending action exactly once to the user's state and
  empties the slot, so that a further \<^verbatim>\<open>run_action_only_once\<close> invokes nothing. The
  dispatch that follows starts from the user's state the action left and adds the actions
  of the rules in their firing order, and no dispatch ever invokes an action to perform or
  touches the slot. If the action returns false, the yield aborts the protocol: the step
  counter stays, \<^verbatim>\<open>current_protocol\<close> is cleared, the normal and exclusive rules are
  cleared and the until function and until event are cleared.
\<close>

theorem perform_once_before_rules:
  assumes "within_capacity s" and "pckt_type pckt = HCI_EVENT_PKT"
    and "y = RUN_PRODUCTION \<or> protocol_success"
    and "yield y protocol_success state s = (ret, state', s1)"
  shows "user s1 =
       (case action s of
          Some act \<Rightarrow> snd (act (action_args_static s) (user s)) | None \<Rightarrow> user s)
     \<and> action s1 = None
     \<and> run_action_only_once s1 = (True, s1)
     \<and> (\<exists>r s2. run_production pckt s1 = Some (r, s2)
           \<and> user s2 = foldl (invoke (as_hci_event_pckt pckt)) (user s1)
                         (firing_order (as_hci_event_pckt pckt) s1)
           \<and> action s2 = None)
     \<and> (\<forall>t r t'. within_capacity t \<and> run_production pckt t = Some (r, t')
           \<longrightarrow> user t' = foldl (invoke (as_hci_event_pckt pckt)) (user t)
                            (firing_order (as_hci_event_pckt pckt) t)
               \<and> action t' = action t \<and> action_args_static t' = action_args_static t)
     \<and> ((\<exists>act. action s = Some act \<and> \<not> fst (act (action_args_static s) (user s)))
          \<longrightarrow> state' = state \<and> current_protocol s1 = None \<and> num_rules s1 = 0
              \<and> num_exclusive_rules s1 = 0 \<and> until_condition s1 = None
              \<and> until_check s1 = no_check)"
proof -
  let ?e = "as_hci_event_pckt pckt"
  let ?p = "snd (run_action_only_once s)"
  have s1: "s1 = (if fst (run_action_only_once s) then ?p else clear_current_protocol ?p)"
    using yield_runs_perform(1) [OF assms(3), of state s] assms(4) by simp
  have st: "\<not> fst (run_action_only_once s) \<Longrightarrow> state' = state"
    using yield_runs_perform(2) [OF assms(3), of s state] assms(4) by simp
  have u: "user s1 =
       (case action s of
          Some act \<Rightarrow> snd (act (action_args_static s) (user s)) | None \<Rightarrow> user s)"
    by (simp add: s1 clear_current_protocol_keeps run_action_only_once_user)
  have a: "action s1 = None"
    by (simp add: s1 clear_current_protocol_sel run_action_only_once_consumes)
  have twice: "run_action_only_once s1 = (True, s1)"
    using a by (simp add: run_action_only_once_def)
  have w: "within_capacity s1"
    using assms(1) by (simp add: s1 clear_current_protocol_keeps run_action_only_once_user)
  have disp: "user t' = foldl (invoke ?e) (user t) (firing_order ?e t)
          \<and> action t' = action t \<and> action_args_static t' = action_args_static t"
    if "within_capacity t" and "run_production pckt t = Some (r, t')" for t r t'
    using run_production_result(4) [OF assms(2) that] run_production_keeps_action [OF that]
    by (simp add: user_after_rules)
  obtain x where "run_production pckt s1 = Some x"
    using run_production_event [OF assms(2) w] by blast
  then obtain r s2 where r: "run_production pckt s1 = Some (r, s2)"
    by (cases x) simp
  have ab: "(\<exists>act. action s = Some act \<and> \<not> fst (act (action_args_static s) (user s)))
      \<Longrightarrow> state' = state \<and> current_protocol s1 = None \<and> num_rules s1 = 0
              \<and> num_exclusive_rules s1 = 0 \<and> until_condition s1 = None
              \<and> until_check s1 = no_check"
  proof -
    assume "\<exists>act. action s = Some act \<and> \<not> fst (act (action_args_static s) (user s))"
    then have f: "\<not> fst (run_action_only_once s)"
      by (auto simp add: run_action_only_once_user)
    then show ?thesis using st by (simp add: s1 clear_current_protocol_sel)
  qed
  have one: "\<exists>r s2. run_production pckt s1 = Some (r, s2)
           \<and> user s2 = foldl (invoke ?e) (user s1) (firing_order ?e s1) \<and> action s2 = None"
    using r disp [OF w r] a by simp
  have every: "\<forall>t r t'. within_capacity t \<and> run_production pckt t = Some (r, t')
           \<longrightarrow> user t' = foldl (invoke ?e) (user t) (firing_order ?e t)
               \<and> action t' = action t \<and> action_args_static t' = action_args_static t"
    using disp by blast
  from u a twice one every ab show ?thesis by blast
qed

theorem perform_once_before_rules_witness:
  "within_capacity performing \<and> pckt_type (event_packet 0x10 []) = HCI_EVENT_PKT
   \<and> user (snd (snd (yield RUN_PRODUCTION True 7 performing))) = [0]
   \<and> action (snd (snd (yield RUN_PRODUCTION True 7 performing))) = None
   \<and> (\<exists>r s2. run_production (event_packet 0x10 [])
                 (snd (snd (yield RUN_PRODUCTION True 7 performing))) = Some (r, s2)
         \<and> user s2 = [0, 1, 2, 3] \<and> action s2 = None)
   \<and> within_capacity failing
   \<and> action failing = Some failing_perform
   \<and> \<not> fst (failing_perform (action_args_static failing) (user failing))
   \<and> user (snd (snd (yield (RUN_PRODUCTION_AND_REPEAT_IF (\<lambda>s. True)) True 7 failing))) = [0]
   \<and> fst (snd (yield (RUN_PRODUCTION_AND_REPEAT_IF (\<lambda>s. True)) True 7 failing)) = 7
   \<and> current_protocol
        (snd (snd (yield (RUN_PRODUCTION_AND_REPEAT_IF (\<lambda>s. True)) True 7 failing))) = None
   \<and> num_rules
        (snd (snd (yield (RUN_PRODUCTION_AND_REPEAT_IF (\<lambda>s. True)) True 7 failing))) = 0"
proof -
  let ?pk = "event_packet 0x10 [] :: hci_uart_pckt"
  let ?e = "as_hci_event_pckt ?pk"
  let ?y = "yield RUN_PRODUCTION True 7 performing"
  let ?z = "yield (RUN_PRODUCTION_AND_REPEAT_IF (\<lambda>s. True)) True 7 failing"
  have w1: "within_capacity performing"
    by (simp add: within_capacity_def performing_def perform_def set_current_protocol_def
        scenario2_def MAX_RULES_def)
  have w2: "within_capacity failing"
    by (simp add: within_capacity_def failing_def perform_def set_current_protocol_def
        scenario2_def MAX_RULES_def)
  have ty: "pckt_type ?pk = HCI_EVENT_PKT" by (rule event_packet_type)
  have y: "?y = (fst ?y, fst (snd ?y), snd (snd ?y))" by simp
  have z: "?z = (fst ?z, fst (snd ?z), snd (snd ?z))" by simp
  have s1: "snd (snd ?y) = snd (run_action_only_once performing)"
    by (simp add: run_production_macro_def run_action_only_once_def performing_def perform_def
        ok_perform_def)
  have f: "firing_order ?e (snd (snd ?y)) = firing_order ?e scenario2"
    unfolding s1
    by (simp add: firing_order_def fired_exclusive_def fired_normal_def fired_global_def
        exclusive_set_def normal_set_def global_set_def run_action_only_once_def
        performing_def perform_def set_current_protocol_def ok_perform_def)
  have a1: "action performing = Some ok_perform" "action_args_static performing = 0"
    "user performing = []"
    by (simp_all add: performing_def perform_def set_current_protocol_def scenario2_def
        startup_def)
  have a2: "action failing = Some failing_perform" "action_args_static failing = 0"
    "user failing = []"
    by (simp_all add: failing_def perform_def set_current_protocol_def scenario2_def
        startup_def)
  have nf: "\<not> fst (failing_perform (action_args_static failing) (user failing))"
    by (simp add: failing_perform_def)
  have t1: "user (snd (snd ?y)) = [0]
     \<and> action (snd (snd ?y)) = None
     \<and> (\<exists>r s2. run_production ?pk (snd (snd ?y)) = Some (r, s2)
           \<and> user s2 = foldl (invoke ?e) (user (snd (snd ?y))) (firing_order ?e (snd (snd ?y)))
           \<and> action s2 = None)"
    using perform_once_before_rules [OF w1 ty _ y]
    by (simp add: a1 ok_perform_def, blast)
  have fo: "foldl (invoke ?e) [0] (firing_order ?e scenario2) = [0, 1, 2, 3]"
    unfolding firing_order_scenario2
    by (simp add: invoke_def on_event_def log_action_def)
  have t2: "user (snd (snd ?z)) = [0] \<and> fst (snd ?z) = 7
     \<and> current_protocol (snd (snd ?z)) = None \<and> num_rules (snd (snd ?z)) = 0"
    using perform_once_before_rules [OF w2 ty _ z] nf
    by (simp add: a2 failing_perform_def, blast?)
  from t1 have u0: "user (snd (snd ?y)) = [0]" by blast
  from t1 obtain r s2 where d: "run_production ?pk (snd (snd ?y)) = Some (r, s2)"
    "user s2 = foldl (invoke ?e) (user (snd (snd ?y))) (firing_order ?e (snd (snd ?y)))"
    "action s2 = None"
    by blast
  from d(2) have "user s2 = [0, 1, 2, 3]" unfolding u0 f fo .
  with d have "\<exists>r s2. run_production ?pk (snd (snd ?y)) = Some (r, s2)
         \<and> user s2 = [0, 1, 2, 3] \<and> action s2 = None"
    by blast
  with t1 t2 w1 w2 a2(1) nf ty show ?thesis by blast
qed

subsection \<open>The step counter\<close>

text \<open>
  C9 as stated fails: a protocol function does not look at events. Called twice in a row
  from \<^verbatim>\<open>state\<close> 0 with no event dispatched, the protocol of three steps is at
  \<^verbatim>\<open>state\<close> 2.
\<close>

theorem repeated_calls_advance_counterexample:
  "map_option fst (call_protocol 0 three_steps (0, startup 0 ())) = Some 1
   \<and> map_option fst
       (Option.bind (call_protocol 0 three_steps (0, startup 0 ()))
          (call_protocol 0 three_steps)) = Some 2"
  by (simp add: call_protocol_def three_steps_def protocol_function_def
      run_production_macro_def run_action_only_once_def set_current_protocol_def startup_def)

text \<open>
  C9, amended. Every call of a protocol function whose current step ends in
  \<^verbatim>\<open>RUN_PRODUCTION\<close> with an action to perform that does not fail advances its
  \<^verbatim>\<open>state\<close> by one, whether or not an event was dispatched since the previous call; the
  event callback \<^verbatim>\<open>run_current_protocol\<close> calls the protocol function only when the
  dispatch completes the production, so a dispatch with another result leaves every
  \<^verbatim>\<open>state\<close> as it is.
\<close>

theorem step_index_advances_on_every_call:
  assumes "k < length blocks" and "k < 65536"
    and "fst (blocks ! k) (if k = 0 then set_current_protocol (Some self) s else s)
           = Reached protocol_success s1"
    and "snd (blocks ! k) = RUN_PRODUCTION"
    and "fst (run_action_only_once s1)"
  shows "(\<exists>ret s'. protocol_function self (blocks, last_code) (of_nat k) s
                     = Some (ret, of_nat k + 1, s'))
     \<and> (\<forall>r s'. run_production pckt s = Some (r, s') \<and> r \<noteq> 0
           \<longrightarrow> run_current_protocol table pckt (states, s) = Some (states, s'))"
proof -
  have "protocol_function self (blocks, last_code) (of_nat k) s
      = Some (run_production_macro protocol_success (of_nat k) s1)"
    using assms(3,4) by (simp add: protocol_function_at [OF assms(1,2)])
  moreover have "run_production_macro protocol_success (of_nat k) s1
      = (protocol_success, of_nat k + 1, snd (run_action_only_once s1))"
    using assms(5) by (cases "run_action_only_once s1") (simp add: run_production_macro_def)
  ultimately show ?thesis
    by (auto simp add: run_current_protocol_def)
qed

theorem step_index_advances_on_every_call_witness:
  "(\<exists>ret s'. protocol_function 0 three_steps 1 (scenario5 50) = Some (ret, 2, s'))
   \<and> run_production (event_packet 0x01 []) (scenario5 50)
       = Some (- 1, after_rules (as_hci_event_pckt (event_packet 0x01 [])) (scenario5 50))
   \<and> run_current_protocol (\<lambda>p. three_steps) (event_packet 0x01 []) (\<lambda>p. 1, scenario5 50)
       = Some (\<lambda>p. 1, after_rules (as_hci_event_pckt (event_packet 0x01 [])) (scenario5 50))"
proof -
  have 1: "(1::nat) < length (fst three_steps)" by (simp add: three_steps_def)
  have 2: "(1::nat) < 65536" by simp
  have 3: "fst (fst three_steps ! 1)
             (if (1::nat) = 0 then set_current_protocol (Some 0) (scenario5 50) else scenario5 50)
           = Reached True (scenario5 50)"
    by (simp add: three_steps_def)
  have 4: "snd (fst three_steps ! 1) = RUN_PRODUCTION" by (simp add: three_steps_def)
  have 5: "fst (run_action_only_once (scenario5 50))"
    by (simp add: run_action_only_once_def scenario5_def until_event_def set_timeout_def
        start_timeout_def startup_def)
  have w: "within_capacity (scenario5 50)"
    by (simp add: within_capacity_def scenario5_def until_event_def set_timeout_def
        start_timeout_def startup_def)
  have f: "\<not> finished (as_hci_event_pckt (event_packet 0x01 [])) (scenario5 50)"
    by (simp add: finished_def scenario5_def until_event_def set_timeout_def
        start_timeout_def startup_def event_packet_evt)
  have n: "firing_order (as_hci_event_pckt (event_packet 0x01 [])) (scenario5 50) = []"
    by (rule no_rules_nothing_fires)
      (simp_all add: scenario5_def until_event_def set_timeout_def start_timeout_def
        startup_def)
  have r: "run_production (event_packet 0x01 []) (scenario5 50)
       = Some (- 1, after_rules (as_hci_event_pckt (event_packet 0x01 [])) (scenario5 50))"
    using run_production_event [OF event_packet_type w] f n by simp
  have p: "(fst three_steps, snd three_steps) = three_steps" by simp
  show ?thesis
    using step_index_advances_on_every_call [OF 1 2 3 4 5, of "snd three_steps"
        "event_packet 0x01 []" "\<lambda>p. three_steps" "\<lambda>p. 1"] r
    unfolding p by simp
qed

subsection \<open>Rules without an action\<close>

text \<open>
  C10. A rule that matches the dispatched event and has no action still counts as fired.
  As the first matching exclusive rule it ends the scan of the exclusive rules right
  behind it, sets \<^verbatim>\<open>rule_matched\<close> and keeps the global rules from being looked at; as a
  normal rule it sets \<^verbatim>\<open>rule_matched\<close> and keeps the global rules from being looked at;
  as the first matching global rule, when no exclusive and no normal rule matched, it
  ends the scan of the global rules right behind it. In each case the dispatch reports
  that a rule ran, and no action is invoked for the rule.
\<close>

theorem null_action_rule_counts_as_fired:
  assumes "pckt_type pckt = HCI_EVENT_PKT" and "within_capacity s"
    and "run_production pckt s = Some (ret, s')"
  shows
    "(i < num_exclusive_rules s \<and> event_action (exclusive_rules s i) = None
        \<and> rule_matches (as_hci_event_pckt pckt) (exclusive_rules s i)
        \<and> (\<forall>j<i. \<not> rule_matches (as_hci_event_pckt pckt) (exclusive_rules s j))
      \<longrightarrow> current_exclusive_rule s' = Suc i \<and> rule_matched s'
          \<and> current_global_rule s' = current_global_rule s \<and> ret \<noteq> - 1
          \<and> user s' = foldl (invoke (as_hci_event_pckt pckt)) (user s)
                        (fired_normal (as_hci_event_pckt pckt) s))
     \<and> (k < num_rules s \<and> event_action (rules s k) = None
        \<and> rule_matches (as_hci_event_pckt pckt) (rules s k)
      \<longrightarrow> rule_matched s' \<and> current_global_rule s' = current_global_rule s \<and> ret \<noteq> - 1)
     \<and> (g < num_global_rules s \<and> event_action (global_rules s g) = None
        \<and> rule_matches (as_hci_event_pckt pckt) (global_rules s g)
        \<and> (\<forall>j<g. \<not> rule_matches (as_hci_event_pckt pckt) (global_rules s j))
        \<and> fired_exclusive (as_hci_event_pckt pckt) s = []
        \<and> fired_normal (as_hci_event_pckt pckt) s = []
      \<longrightarrow> current_global_rule s' = Suc g \<and> ret \<noteq> - 1
          \<and> rule_matched s' = rule_matched s \<and> user s' = user s)"
proof (intro conjI impI)
  let ?e = "as_hci_event_pckt pckt"
  note res = run_production_result [OF assms]
  {
    assume h: "i < num_exclusive_rules s \<and> event_action (exclusive_rules s i) = None
        \<and> rule_matches ?e (exclusive_rules s i)
        \<and> (\<forall>j<i. \<not> rule_matches ?e (exclusive_rules s j))"
    have fm: "examined ?e (exclusive_set s) = Suc i"
      "fired_exclusive ?e s = [exclusive_rules s i]"
      using examined_first_match [of i "exclusive_set s" ?e] h
      by (simp_all add: exclusive_set_def fired_exclusive_def)
    have inv: "invoke ?e (user s) (exclusive_rules s i) = user s"
      using h by (simp add: invoke_def)
    show "current_exclusive_rule s' = Suc i" using res(1) fm by simp
    show "rule_matched s'" using res(3) fm by (simp add: rule_matched_after_rules)
    show "current_global_rule s' = current_global_rule s"
      using res(2) fm by (simp add: current_global_rule_after_rules)
    show "ret \<noteq> - 1" using res(5) fm by (simp add: firing_order_def)
    show "user s' = foldl (invoke ?e) (user s) (fired_normal ?e s)"
      using res(4) fm inv by (simp add: user_after_rules firing_order_def fired_global_def)
  }
  {
    assume h: "k < num_rules s \<and> event_action (rules s k) = None \<and> rule_matches ?e (rules s k)"
    then have "rules s k \<in> set (fired_normal ?e s)"
      by (auto simp add: fired_normal_def normal_set_def)
    then have ne: "fired_normal ?e s \<noteq> []" by auto
    show "rule_matched s'" using res(3) ne by (simp add: rule_matched_after_rules)
    show "current_global_rule s' = current_global_rule s"
      using res(2) ne by (simp add: current_global_rule_after_rules)
    show "ret \<noteq> - 1" using res(5) ne by (simp add: firing_order_def)
  }
  {
    assume h: "g < num_global_rules s \<and> event_action (global_rules s g) = None
        \<and> rule_matches ?e (global_rules s g)
        \<and> (\<forall>j<g. \<not> rule_matches ?e (global_rules s j))
        \<and> fired_exclusive ?e s = [] \<and> fired_normal ?e s = []"
    have fm: "examined ?e (global_set s) = Suc g"
      "take 1 (filter (rule_matches ?e) (global_set s)) = [global_rules s g]"
      using examined_first_match [of g "global_set s" ?e] h
      by (simp_all add: global_set_def)
    have inv: "invoke ?e (user s) (global_rules s g) = user s"
      using h by (simp add: invoke_def)
    have fo: "firing_order ?e s = [global_rules s g]"
      using h fm by (simp add: firing_order_def fired_global_def)
    show "current_global_rule s' = Suc g"
      using res(2) fm h by (simp add: current_global_rule_after_rules)
    show "ret \<noteq> - 1" using res(5) fo by simp
    show "rule_matched s' = rule_matched s"
      using res(3) h by (simp add: rule_matched_after_rules)
    show "user s' = user s" using res(4) fo inv by (simp add: user_after_rules)
  }
qed

theorem null_action_rule_counts_as_fired_witness:
  "run_production (event_packet 0x10 []) silent
     = Some (1, after_rules (as_hci_event_pckt (event_packet 0x10 [])) silent)
   \<and> event_action (exclusive_rules silent 1) = None \<and> event_action (rules silent 0) = None
   \<and> current_exclusive_rule (after_rules (as_hci_event_pckt (event_packet 0x10 [])) silent) = 2
   \<and> rule_matched (after_rules (as_hci_event_pckt (event_packet 0x10 [])) silent)
   \<and> current_global_rule (after_rules (as_hci_event_pckt (event_packet 0x10 [])) silent) = 0
   \<and> user (after_rules (as_hci_event_pckt (event_packet 0x10 [])) silent) = []
   \<and> run_production (event_packet 0x10 []) silent_global
     = Some (1, after_rules (as_hci_event_pckt (event_packet 0x10 [])) silent_global)
   \<and> event_action (global_rules silent_global 0) = None
   \<and> current_global_rule
       (after_rules (as_hci_event_pckt (event_packet 0x10 [])) silent_global) = 1
   \<and> \<not> rule_matched (after_rules (as_hci_event_pckt (event_packet 0x10 [])) silent_global)
   \<and> user (after_rules (as_hci_event_pckt (event_packet 0x10 [])) silent_global) = []"
proof -
  let ?e = "as_hci_event_pckt (event_packet 0x10 [])"
  have w1: "within_capacity silent"
    by (simp add: within_capacity_def silent_def MAX_RULES_def)
  have w2: "within_capacity silent_global"
    by (simp add: within_capacity_def silent_global_def startup_def MAX_RULES_def)
  have f1: "\<not> finished ?e silent" by (simp add: finished_def silent_defs)
  have f2: "\<not> finished ?e silent_global" by (simp add: finished_def silent_defs)
  have n1: "fired_normal ?e silent = [on_event 0x10 None]"
    by (simp add: fired_normal_def normal_set_def silent_defs upt_small)
  have x2: "fired_exclusive ?e silent_global = []" "fired_normal ?e silent_global = []"
    by (simp_all add: fired_exclusive_def exclusive_set_def fired_normal_def normal_set_def
        silent_defs)
  have g2: "firing_order ?e silent_global = [on_event 0x10 None]"
  proof -
    have "take 1 (filter (rule_matches ?e) (global_set silent_global)) = [on_event 0x10 None]"
      by (simp add: global_set_def silent_defs upt_small)
    then show ?thesis by (simp add: firing_order_def fired_global_def x2)
  qed
  have r1: "run_production (event_packet 0x10 []) silent = Some (1, after_rules ?e silent)"
    using run_production_event [OF event_packet_type w1] f1 n1
    by (simp add: firing_order_def)
  have r2: "run_production (event_packet 0x10 []) silent_global
      = Some (1, after_rules ?e silent_global)"
    using run_production_event [OF event_packet_type w2] f2 g2 by simp
  have h1: "1 < num_exclusive_rules silent \<and> event_action (exclusive_rules silent 1) = None
        \<and> rule_matches ?e (exclusive_rules silent 1)
        \<and> (\<forall>j<1. \<not> rule_matches ?e (exclusive_rules silent j))"
    by (simp add: silent_defs)
  have h2: "0 < num_rules silent \<and> event_action (rules silent 0) = None
        \<and> rule_matches ?e (rules silent 0)"
    by (simp add: silent_defs)
  have h3: "0 < num_global_rules silent_global
        \<and> event_action (global_rules silent_global 0) = None
        \<and> rule_matches ?e (global_rules silent_global 0)
        \<and> (\<forall>j<0. \<not> rule_matches ?e (global_rules silent_global j))
        \<and> fired_exclusive ?e silent_global = [] \<and> fired_normal ?e silent_global = []"
    unfolding x2 by (simp add: silent_defs)
  have u1: "foldl (invoke ?e) (user silent) (fired_normal ?e silent) = []"
    unfolding n1 by (simp add: invoke_def on_event_def silent_def startup_def)
  have c: "current_global_rule silent = 0" "rule_matched silent_global = False"
    "user silent_global = []"
    by (simp_all add: silent_def silent_global_def startup_def)
  show ?thesis
    using null_action_rule_counts_as_fired [OF event_packet_type w1 r1, of 1 0 0]
      null_action_rule_counts_as_fired [OF event_packet_type w2 r2, of 0 0 0]
      h1 h2 h3 r1 r2 u1 c
    by simp
qed

end
